theory Spec2Isabelle
  imports Main
begin

section \<open>The cache store (sqliteCacheStore.ts)\<close>

text \<open>
  Every table of the SQLite store is a list of rows in rowid order: a new row is put at
  the end, a deleted row leaves the others in place.  Block numbers and timestamps are
  natural numbers, hashes and addresses are strings.  An exception thrown by the source
  is a value of \<open>error\<close>: \<open>Error msg\<close> is \<open>throw new Error(msg)\<close>,
  \<open>ErrorWithNumber msg n\<close> the same with the number \<open>n\<close> at the end of \<open>msg\<close>, \<open>TypeError\<close> a
  property read on \<open>undefined\<close>, \<open>RequestFailed\<close> and \<open>StoreFailed\<close> a rejected
  promise of the RPC client and of the event store.
\<close>

datatype error =
    Error string
  | ErrorWithNumber string nat
  | TypeError
  | RequestFailed
  | StoreFailed

subsection \<open>Contract calls\<close>

record ContractCall =
  key :: string
  result :: string

text \<open>
  \<open>upsertContractCall\<close>: \<open>INSERT ... ON CONFLICT("key") DO UPDATE SET "result" = excluded."result"\<close>.
  The key is the primary key of the table, so the row holding it is updated in place and
  a new key is put in a new row.
\<close>

fun upsertContractCall :: "ContractCall list \<Rightarrow> ContractCall \<Rightarrow> ContractCall list" where
  "upsertContractCall [] contractCall = [contractCall]"
| "upsertContractCall (row # rows) contractCall =
     (if key row = key contractCall then row\<lparr>result := result contractCall\<rparr> # rows
      else row # upsertContractCall rows contractCall)"

text \<open>\<open>getContractCall\<close>: \<open>SELECT * ... WHERE "key" = @key\<close>, \<open>null\<close> (here \<open>None\<close>) without a row.\<close>

definition getContractCall :: "ContractCall list \<Rightarrow> string \<Rightarrow> ContractCall option" where
  "getContractCall rows contractCallKey = find (\<lambda>row. key row = contractCallKey) rows"

subsection \<open>Cached intervals\<close>

text \<open>
  A row of the \<open>cachedIntervals\<close> table.  The \<open>id\<close> column is the rowid, which the code
  never reads; it is the position of the row in the list.
\<close>

record CachedInterval =
  contractAddress :: string
  startBlock :: nat
  endBlock :: nat
  endBlockTimestamp :: nat

text \<open>\<open>getCachedIntervals\<close>: \<open>SELECT * ... WHERE "contractAddress" = @contractAddress\<close>.\<close>

definition getCachedIntervals :: "CachedInterval list \<Rightarrow> string \<Rightarrow> CachedInterval list" where
  "getCachedIntervals table address = filter (\<lambda>row. contractAddress row = address) table"

text \<open>
  The body of \<open>mergedIntervals.forEach\<close> in \<open>insertCachedInterval\<close>: for each merged
  interval \<open>[startBlock, endBlock]\<close>, the first of \<open>[newInterval, ...existingIntervals]\<close>
  with that \<open>endBlock\<close> gives the \<open>endBlockTimestamp\<close> of the inserted row; without one
  the code throws.  The throw happens inside \<open>db.transaction\<close>, which rolls the
  transaction back, so an error carries no rows.
\<close>

fun insertMerged ::
  "string \<Rightarrow> CachedInterval list \<Rightarrow> (nat \<times> nat) list \<Rightarrow> error + CachedInterval list" where
  "insertMerged address oldIntervals [] = Inr []"
| "insertMerged address oldIntervals (mergedInterval # others) =
     (case find (\<lambda>oldInterval. endBlock oldInterval = snd mergedInterval) oldIntervals of
        None \<Rightarrow> Inl (Error ''Old interval with endBlock not found'')
      | Some endBlockInterval \<Rightarrow>
          (case insertMerged address oldIntervals others of
             Inl err \<Rightarrow> Inl err
           | Inr rows \<Rightarrow>
               Inr (\<lparr>contractAddress = address, startBlock = fst mergedInterval,
                      endBlock = snd mergedInterval,
                      endBlockTimestamp = endBlockTimestamp endBlockInterval\<rparr> # rows)))"

text \<open>
  \<open>insertCachedInterval\<close>, with the imported \<open>merge_intervals\<close> as the parameter \<open>merge\<close>:
  delete and return the rows of the contract; with none, insert the new interval as it
  is; otherwise merge the block ranges of the deleted rows and of the new interval and
  insert one row for each merged range.  \<open>Inl\<close> is the rolled-back transaction: the
  table is the one before the call.
\<close>

definition insertCachedIntervalWith ::
  "((nat \<times> nat) list \<Rightarrow> (nat \<times> nat) list) \<Rightarrow> CachedInterval list \<Rightarrow> CachedInterval
     \<Rightarrow> error + CachedInterval list" where
  "insertCachedIntervalWith merge table newInterval =
     (let existingIntervals = filter (\<lambda>row. contractAddress row = contractAddress newInterval) table;
          otherRows = filter (\<lambda>row. contractAddress row \<noteq> contractAddress newInterval) table
      in if existingIntervals = [] then Inr (otherRows @ [newInterval])
         else
           (case insertMerged (contractAddress newInterval) (newInterval # existingIntervals)
                   (merge (map (\<lambda>row. (startBlock row, endBlock row)) existingIntervals
                             @ [(startBlock newInterval, endBlock newInterval)])) of
              Inl err \<Rightarrow> Inl err
            | Inr rows \<Rightarrow> Inr (otherRows @ rows)))"

text \<open>
  Modelled from the spec: \<open>merge_intervals\<close> is imported from \<open>@/common/utils\<close>, which is
  not among the sources.  The spec gives its rule (section 3): intervals \<open>[a,b]\<close> and
  \<open>[c,d]\<close> with \<open>max(a,c) \<le> min(b,d)+1\<close> combine into \<open>[min(a,c), max(b,d)]\<close>.
  \<open>touching\<close> is the condition of the rule.
\<close>

definition touching :: "nat \<times> nat \<Rightarrow> nat \<times> nat \<Rightarrow> bool" where
  "touching p q = (max (fst p) (fst q) \<le> min (snd p) (snd q) + 1)"

text \<open>Modelled from the spec: the interval that two touching intervals combine into.\<close>

definition combine :: "nat \<times> nat \<Rightarrow> nat \<times> nat \<Rightarrow> nat \<times> nat" where
  "combine p q = (min (fst p) (fst q), max (snd p) (snd q))"

text \<open>
  Modelled from the spec: one pass over the intervals in the order of their start, which
  combines the current interval with the next one while the rule applies.
\<close>

fun sweep :: "nat \<times> nat \<Rightarrow> (nat \<times> nat) list \<Rightarrow> (nat \<times> nat) list" where
  "sweep cur [] = [cur]"
| "sweep cur (q # rest) =
     (if touching cur q then sweep (combine cur q) rest else cur # sweep q rest)"

text \<open>
  Modelled from the spec: \<open>merge_intervals\<close>, the merged set of a list of intervals under
  the rule of section 3: sort by start (stable), then sweep.
\<close>

definition merge_intervals :: "(nat \<times> nat) list \<Rightarrow> (nat \<times> nat) list" where
  "merge_intervals intervals =
     (case sort_key fst intervals of [] \<Rightarrow> [] | first # rest \<Rightarrow> sweep first rest)"

text \<open>\<open>insertCachedInterval\<close> as the store runs it, with its import.\<close>

definition insertCachedInterval :: "CachedInterval list \<Rightarrow> CachedInterval \<Rightarrow> error + CachedInterval list" where
  "insertCachedInterval = insertCachedIntervalWith merge_intervals"


text \<open>
  The invariant of section 3 on the rows of one contract: no two rows overlap or are
  adjacent.  \<open>apart\<close> compares every row with every later row of the list; the
  condition is symmetric.
\<close>

definition overlapOrAdjacent :: "CachedInterval \<Rightarrow> CachedInterval \<Rightarrow> bool" where
  "overlapOrAdjacent r s = (max (startBlock r) (startBlock s) \<le> min (endBlock r) (endBlock s) + 1)"

fun apart :: "CachedInterval list \<Rightarrow> bool" where
  "apart [] = True"
| "apart (r # rows) = ((\<forall>s \<in> set rows. \<not> overlapOrAdjacent r s) \<and> apart rows)"

text \<open>Notions of the proofs: a range with start \<open>\<le>\<close> end, the blocks of a range, a list
  of ranges in ascending order with a gap of at least one block between neighbours.\<close>

definition wellFormed :: "nat \<times> nat \<Rightarrow> bool" where
  "wellFormed p = (fst p \<le> snd p)"

definition blocksOf :: "nat \<times> nat \<Rightarrow> nat set" where
  "blocksOf p = {fst p .. snd p}"

definition gapped :: "(nat \<times> nat) list \<Rightarrow> bool" where
  "gapped ps = sorted_wrt (\<lambda>p q. snd p + 1 < fst q) ps"

definition blockRange :: "CachedInterval \<Rightarrow> nat \<times> nat" where
  "blockRange row = (startBlock row, endBlock row)"



subsection \<open>Logs, blocks and transactions\<close>

text \<open>
  The rows of the \<open>logs\<close>, \<open>blocks\<close> and \<open>transactions\<close> tables, one field for each
  column.  \<open>encodeLog\<close>, \<open>encodeBlock\<close> and \<open>encodeTransaction\<close> (module \<open>./mappers\<close>)
  change the representation of a value (a bigint as text), not the value: a row is the
  value it was made from.  The fields of a block that the realtime service reads are
  those of a light block; a block row and a block of the RPC extend it.
\<close>

record Log =
  logId :: string
  logSortKey :: nat
  address :: string
  data :: string
  topic0 :: "string option"
  topic1 :: "string option"
  topic2 :: "string option"
  topic3 :: "string option"
  blockHash :: string
  blockNumber :: nat
  blockTimestamp :: "nat option"
  logIndex :: nat
  transactionHash :: string
  transactionIndex :: nat
  removed :: bool

record LightBlock =
  hash :: string
  number :: nat
  parentHash :: string
  timestamp :: nat
  logsBloom :: string

record Block = LightBlock +
  gasLimit :: string
  gasUsed :: string
  baseFeePerGas :: string
  miner :: string
  extraData :: string
  blockSize :: nat
  stateRoot :: string
  transactionsRoot :: string
  receiptsRoot :: string
  totalDifficulty :: string

record Transaction =
  tx_hash :: string
  tx_nonce :: nat
  tx_from :: string
  tx_to :: "string option"
  tx_value :: string
  tx_input :: string
  tx_gas :: string
  tx_gasPrice :: string
  tx_maxFeePerGas :: "string option"
  tx_maxPriorityFeePerGas :: "string option"
  tx_blockHash :: string
  tx_blockNumber :: nat
  tx_transactionIndex :: nat
  tx_chainId :: nat

record Store =
  logsTable :: "Log list"
  blocksTable :: "Block list"
  transactionsTable :: "Transaction list"

definition emptyStore :: Store where
  "emptyStore = \<lparr>logsTable = [], blocksTable = [], transactionsTable = []\<rparr>"

text \<open>
  \<open>insertLogs\<close>: one \<open>INSERT ... ON CONFLICT("logId") DO NOTHING\<close> for each log, in one
  transaction.  The column \<open>blockTimestamp\<close> is not in the column list of the statement:
  the new row has \<open>NULL\<close> there.
\<close>

definition insertLog :: "Log list \<Rightarrow> Log \<Rightarrow> Log list" where
  "insertLog table log =
     (if \<exists>row \<in> set table. logId row = logId log then table
      else table @ [log\<lparr>blockTimestamp := None\<rparr>])"

definition insertLogs :: "Store \<Rightarrow> Log list \<Rightarrow> Store" where
  "insertLogs store newLogs = store\<lparr>logsTable := foldl insertLog (logsTable store) newLogs\<rparr>"

text \<open>
  \<open>insertBlock\<close> runs two statements: \<open>INSERT ... ON CONFLICT("hash") DO NOTHING\<close> into
  the blocks, then \<open>UPDATE logs SET "blockTimestamp" = @blockTimestamp WHERE "blockHash" =
  @blockHash\<close> with the hash and the timestamp of its argument.
\<close>

definition insertBlockRow :: "Block list \<Rightarrow> Block \<Rightarrow> Block list" where
  "insertBlockRow table block =
     (if \<exists>row \<in> set table. hash row = hash block then table else table @ [block])"

definition updateBlockTimestamp :: "Log list \<Rightarrow> string \<Rightarrow> nat \<Rightarrow> Log list" where
  "updateBlockTimestamp table h t =
     map (\<lambda>row. if blockHash row = h then row\<lparr>blockTimestamp := Some t\<rparr> else row) table"

definition insertBlock :: "Store \<Rightarrow> Block \<Rightarrow> Store" where
  "insertBlock store block =
     store\<lparr>blocksTable := insertBlockRow (blocksTable store) block,
           logsTable := updateBlockTimestamp (logsTable store) (hash block) (timestamp block)\<rparr>"

text \<open>\<open>insertTransactions\<close>: one \<open>INSERT ... ON CONFLICT(`hash`) DO NOTHING\<close> for each.\<close>

definition insertTransaction :: "Transaction list \<Rightarrow> Transaction \<Rightarrow> Transaction list" where
  "insertTransaction table tx =
     (if \<exists>row \<in> set table. tx_hash row = tx_hash tx then table else table @ [tx])"

definition insertTransactions :: "Store \<Rightarrow> Transaction list \<Rightarrow> Store" where
  "insertTransactions store txs =
     store\<lparr>transactionsTable := foldl insertTransaction (transactionsTable store) txs\<rparr>"

text \<open>
  Modelled from the spec: \<open>insertRealtimeBlock\<close> belongs to the event store
  (\<open>@/event-store/store\<close>), which is not among the sources; the realtime service calls
  it.  Section 4.1: insert one full block row (ignore on primary-key conflict), upsert
  the referenced transactions (ignore on conflict), insert the logs (ignore on conflict
  by \<open>logId\<close>), and backfill \<open>blockTimestamp\<close> on the log rows with the matching
  \<open>blockHash\<close>.  The four steps are the statements of the cache store above.
\<close>

definition insertRealtimeBlock :: "Store \<Rightarrow> Block \<times> Transaction list \<times> Log list \<Rightarrow> Store" where
  "insertRealtimeBlock store call =
     (case call of (block, txs, newLogs) \<Rightarrow>
        (let s1 = store\<lparr>blocksTable := insertBlockRow (blocksTable store) block\<rparr>;
             s2 = insertTransactions s1 txs;
             s3 = insertLogs s2 newLogs
         in s3\<lparr>logsTable := updateBlockTimestamp (logsTable s3) (hash block) (timestamp block)\<rparr>))"

text \<open>Every stored log has its block in the store.\<close>

definition logsHaveBlocks :: "Store \<Rightarrow> bool" where
  "logsHaveBlocks store =
     (\<forall>l \<in> set (logsTable store). \<exists>b \<in> set (blocksTable store). hash b = blockHash l)"

text \<open>A log of block \<open>0xb1\<close> and that block, for the worked examples.\<close>

definition exampleLog :: Log where
  "exampleLog =
     \<lparr>logId = ''0xb1-0'', logSortKey = 1010, address = ''0xa'', data = ''0x'',
      topic0 = Some ''0xt'', topic1 = None, topic2 = None, topic3 = None,
      blockHash = ''0xb1'', blockNumber = 101, blockTimestamp = None, logIndex = 0,
      transactionHash = ''0xf1'', transactionIndex = 0, removed = False\<rparr>"

definition exampleBlock :: Block where
  "exampleBlock =
     \<lparr>hash = ''0xb1'', number = 101, parentHash = ''0xb0'', timestamp = 1700, logsBloom = ''0x00'',
      gasLimit = ''30000000'', gasUsed = ''21000'', baseFeePerGas = ''7'', miner = ''0xm'',
      extraData = ''0x'', blockSize = 500, stateRoot = ''0xs'', transactionsRoot = ''0xr'',
      receiptsRoot = ''0xc'', totalDifficulty = ''1''\<rparr>"

section \<open>The realtime sync service (realtime-sync/service.ts)\<close>

text \<open>
  A block of the RPC with its transactions.  Quantities are decoded (the code reads them
  through \<open>hexToNumber\<close>); the transactions and the logs of the RPC are written with the
  records of the store.
\<close>

record BlockWithTransactions = Block +
  transactions :: "Transaction list"

text \<open>
  Modelled from the spec: \<open>rpcBlockToLightBlock\<close> is imported from \<open>./format\<close>, which is
  not among the sources.  Section 3: a light block is \<open>{hash, number, parentHash,
  timestamp, logsBloom}\<close>.
\<close>

definition rpcBlockToLightBlock :: "BlockWithTransactions \<Rightarrow> LightBlock" where
  "rpcBlockToLightBlock block =
     \<lparr>hash = hash block, number = number block, parentHash = parentHash block,
      timestamp = timestamp block, logsBloom = logsBloom block\<rparr>"

text \<open>
  The \<open>filter\<close> object of a configured log filter; the service reads \<open>key\<close> and
  \<open>endBlock\<close> and passes the filters to the bloom pre-screen and to \<open>filterLogs\<close>.
\<close>

record LogFilter =
  lf_key :: string
  lf_address :: string
  lf_topics :: "string list option list"
  lf_endBlock :: "nat option"

datatype BlockTag = Latest | BlockNumber nat

datatype Event =
    realtimeCheckpoint nat
  | finalityCheckpoint nat
  | shallowReorg nat
  | deepReorg nat nat

datatype StoreCall =
    InsertRealtimeBlock nat BlockWithTransactions "Transaction list" "Log list"
  | InsertLogFilterCachedRanges "string list" nat nat nat
  | DeleteRealtimeData nat nat

datatype RpcRequest =
    GetBlockByNumber BlockTag bool
  | GetBlockByHash string bool
  | GetLogs string

text \<open>What a task does to the outside, in the order it does it.\<close>

datatype Effect =
    Request RpcRequest
  | Store StoreCall
  | Emit Event

text \<open>
  The collaborators of the service, none of them among the sources: the configuration
  (log filters, network), the RPC client (a request resolves to a reply, \<open>None\<close> for
  \<open>null\<close>, or rejects), the event store (a call resolves, \<open>None\<close>, or rejects) and the
  two imported helpers \<open>isMatchedLogInBloomFilter\<close> and \<open>filterLogs\<close>.  Within one task
  the same request has the same reply.  Logging and metrics are left out.
\<close>

record Env =
  logFilters :: "LogFilter list"
  chainId :: nat
  finalityBlockCount :: nat
  eth_getBlockByNumber :: "BlockTag \<Rightarrow> bool \<Rightarrow> error + BlockWithTransactions option"
  eth_getBlockByHash :: "string \<Rightarrow> bool \<Rightarrow> error + BlockWithTransactions option"
  eth_getLogs :: "string \<Rightarrow> error + Log list"
  eventStore :: "StoreCall \<Rightarrow> error option"
  isMatchedLogInBloomFilter :: "string \<Rightarrow> LogFilter list \<Rightarrow> bool"
  filterLogs :: "Log list \<Rightarrow> LogFilter list \<Rightarrow> Log list"

text \<open>
  The fields of the service that a task or \<open>start()\<close> changes: the local chain
  \<open>this.blocks\<close>, \<open>this.finalizedBlockNumber\<close>, the tasks of the queue with their
  priorities in the order they were added, whether the queue was started, whether the
  poller was started, and the effects so far.
\<close>

record Service =
  blocks :: "LightBlock list"
  finalizedBlockNumber :: nat
  queue :: "(BlockWithTransactions \<times> int) list"
  queueStarted :: bool
  polling :: bool
  effects :: "Effect list"

definition MAX_SAFE_INTEGER :: int where
  "MAX_SAFE_INTEGER = 9007199254740991"

definition effect :: "Effect \<Rightarrow> Service \<Rightarrow> Service" where
  "effect e s = s\<lparr>effects := effects s @ [e]\<rparr>"

text \<open>\<open>this.queue.addTask(block, { priority })\<close> with
  \<open>priority = Number.MAX_SAFE_INTEGER - hexToNumber(block.number)\<close>.\<close>

definition addTask :: "Service \<Rightarrow> BlockWithTransactions \<Rightarrow> Service" where
  "addTask s block = s\<lparr>queue := queue s @ [(block, MAX_SAFE_INTEGER - int (number block))]\<rparr>"

text \<open>
  \<open>start()\<close>.  The first component of the result is the exception thrown, if any; the
  second is the service as the call leaves it.
\<close>

definition start :: "Env \<Rightarrow> Service \<Rightarrow> error option \<times> Service" where
  "start env s =
     (if list_all (\<lambda>endBlock. case endBlock of None \<Rightarrow> False
                      | Some e \<Rightarrow> e < finalizedBlockNumber s)
           (map lf_endBlock (logFilters env))
      then (None, s)
      else if length (queue s) = 0
      then (Some (Error ''Unable to start. Must call setup() method before start().''), s)
      else
        (let s1 = effect (Request (GetBlockByNumber (BlockNumber (finalizedBlockNumber s)) False)) s
         in case eth_getBlockByNumber env (BlockNumber (finalizedBlockNumber s)) False of
              Inl err \<Rightarrow> (Some err, s1)
            | Inr None \<Rightarrow> (Some (Error ''Unable to fetch finalized block''), s1)
            | Inr (Some finalizedBlock) \<Rightarrow>
                (None, s1\<lparr>blocks := blocks s1 @ [rpcBlockToLightBlock finalizedBlock],
                          queueStarted := True, polling := True\<rparr>)))"

text \<open>
  The finality step of a new head (the last \<open>if\<close> of case 2).  \<open>find(...)!\<close> is
  \<open>undefined\<close> without a local block of that number, and the callback of the \<open>filter\<close>
  that follows reads \<open>newFinalizedBlock.number\<close>: a \<open>TypeError\<close>, before
  \<open>this.blocks\<close> is assigned.
\<close>

definition advanceFinality :: "Env \<Rightarrow> Service \<Rightarrow> error option \<times> Service" where
  "advanceFinality env s =
     (case find (\<lambda>block. number block = finalizedBlockNumber s + finalityBlockCount env) (blocks s) of
        None \<Rightarrow> (Some TypeError, s)
      | Some newFinalizedBlock \<Rightarrow>
          (let s1 = s\<lparr>blocks := filter (\<lambda>block. number block \<ge> number newFinalizedBlock) (blocks s)\<rparr>;
               call = InsertLogFilterCachedRanges (map lf_key (logFilters env))
                        (finalizedBlockNumber s + 1) (number newFinalizedBlock)
                        (timestamp newFinalizedBlock);
               s2 = effect (Store call) s1
           in case eventStore env call of
                Some err \<Rightarrow> (Some err, s2)
              | None \<Rightarrow>
                  (None, effect (Emit (finalityCheckpoint (timestamp newFinalizedBlock)))
                           (s2\<lparr>finalizedBlockNumber := number newFinalizedBlock\<rparr>))))"

text \<open>
  Case 2 after the logs of the block are dealt with: emit \<open>realtimeCheckpoint\<close>, push the
  light block on the local chain, then the finality step if the block is more than
  \<open>2 * finalityBlockCount\<close> above the finalized block.
\<close>

definition acceptHead :: "Env \<Rightarrow> Service \<Rightarrow> BlockWithTransactions \<Rightarrow> error option \<times> Service" where
  "acceptHead env s block =
     (let newBlock = rpcBlockToLightBlock block;
          s1 = effect (Emit (realtimeCheckpoint (timestamp block))) s;
          s2 = s1\<lparr>blocks := blocks s1 @ [newBlock]\<rparr>
      in if number newBlock > finalizedBlockNumber s2 + 2 * finalityBlockCount env
         then advanceFinality env s2
         else (None, s2))"

text \<open>
  Case 2, the body of \<open>if (isMatchedLogPresentInBlock)\<close>: \<open>eth_getLogs\<close> for the
  block, \<open>filterLogs\<close>, the transactions of the matched logs, and \<open>insertRealtimeBlock\<close>
  if any log matched.
\<close>

definition insertMatchedLogs ::
  "Env \<Rightarrow> Service \<Rightarrow> BlockWithTransactions \<Rightarrow> error option \<times> Service" where
  "insertMatchedLogs env s block =
     (let newBlock = rpcBlockToLightBlock block
      in if isMatchedLogInBloomFilter env (logsBloom block) (logFilters env)
         then
           (let s1 = effect (Request (GetLogs (hash newBlock))) s
            in case eth_getLogs env (hash newBlock) of
                 Inl err \<Rightarrow> (Some err, s1)
               | Inr fetched \<Rightarrow>
                   (let filteredLogs = filterLogs env fetched (logFilters env);
                        filteredTransactions =
                          filter (\<lambda>t. tx_hash t \<in> set (map transactionHash filteredLogs))
                            (transactions block)
                    in if length filteredLogs > 0
                       then
                         (let call = InsertRealtimeBlock (chainId env) block filteredTransactions
                                       filteredLogs
                          in (eventStore env call, effect (Store call) s1))
                       else (None, s1)))
         else (None, s))"

text \<open>Case 2, the new head block.\<close>

definition newHead :: "Env \<Rightarrow> Service \<Rightarrow> BlockWithTransactions \<Rightarrow> error option \<times> Service" where
  "newHead env s block =
     (case insertMatchedLogs env s block of
        (Some err, s1) \<Rightarrow> (Some err, s1)
      | (None, s1) \<Rightarrow> acceptHead env s1 block)"

text \<open>
  Case 3, missing blocks.  \<open>range\<close> (module \<open>@/utils/range\<close>, not among the sources) gives
  the numbers from \<open>previousHeadBlock.number + 1\<close> up to \<open>newBlock.number - 1\<close>
  (section 4.4.2 of the spec).  Every request is issued; \<open>Promise.all\<close> rejects with a
  failure, here the first in the order of the numbers.
\<close>

fun fetchMissing :: "Env \<Rightarrow> nat list \<Rightarrow> error + BlockWithTransactions list" where
  "fetchMissing env [] = Inr []"
| "fetchMissing env (n # ns) =
     (case eth_getBlockByNumber env (BlockNumber n) True of
        Inl err \<Rightarrow> Inl err
      | Inr None \<Rightarrow> Inl (ErrorWithNumber ''Failed to fetch block number: '' n)
      | Inr (Some block) \<Rightarrow>
          (case fetchMissing env ns of Inl err \<Rightarrow> Inl err | Inr bs \<Rightarrow> Inr (block # bs)))"

definition fillGap :: "Env \<Rightarrow> Service \<Rightarrow> LightBlock \<Rightarrow> BlockWithTransactions \<Rightarrow> error option \<times> Service" where
  "fillGap env s previousHeadBlock block =
     (let missingBlockNumbers = [number previousHeadBlock + 1 ..< number block];
          s1 = s\<lparr>effects := effects s
                  @ map (\<lambda>n. Request (GetBlockByNumber (BlockNumber n) True)) missingBlockNumbers\<rparr>
      in case fetchMissing env missingBlockNumbers of
           Inl err \<Rightarrow> (Some err, s1)
         | Inr missingBlocks \<Rightarrow> (None, foldl addTask s1 (missingBlocks @ [block])))"

text \<open>
  Case 4 once the common ancestor is found: cut the local chain, \<open>deleteRealtimeData\<close>,
  clear the queue, add the canonical blocks, \<open>addNewLatestBlock()\<close>, emit \<open>shallowReorg\<close>.
\<close>

definition reconcile ::
  "Env \<Rightarrow> Service \<Rightarrow> BlockWithTransactions list \<Rightarrow> LightBlock \<Rightarrow> error option \<times> Service" where
  "reconcile env s canonicalBlocksWithTransactions commonAncestorBlock =
     (let s1 = s\<lparr>blocks := filter (\<lambda>block. number block \<le> number commonAncestorBlock) (blocks s)\<rparr>;
          call = DeleteRealtimeData (chainId env) (number commonAncestorBlock + 1);
          s2 = effect (Store call) s1
      in case eventStore env call of
           Some err \<Rightarrow> (Some err, s2)
         | None \<Rightarrow>
             (let s3 = s2\<lparr>queue := []\<rparr>;
                  s4 = foldl addTask s3 canonicalBlocksWithTransactions;
                  s5 = effect (Request (GetBlockByNumber Latest True)) s4
              in case eth_getBlockByNumber env Latest True of
                   Inl err \<Rightarrow> (Some err, s5)
                 | Inr None \<Rightarrow> (Some (Error ''Unable to fetch latest block''), s5)
                 | Inr (Some latestBlock) \<Rightarrow>
                     (None, effect (Emit (shallowReorg (timestamp commonAncestorBlock)))
                              (addTask s5 latestBlock))))"

text \<open>
  The \<open>while\<close> loop of case 4.  The parents come from the RPC, and nothing in the code
  bounds their numbers: the loop need not end, and \<open>None\<close> is the task that never
  returns.
\<close>

partial_function (option) traverse ::
  "Env \<Rightarrow> Service \<Rightarrow> LightBlock \<Rightarrow> BlockWithTransactions list \<Rightarrow> LightBlock \<Rightarrow> nat
     \<Rightarrow> (error option \<times> Service) option" where
  "traverse env s newBlock canonicalBlocksWithTransactions canonicalBlock depth =
     (if number canonicalBlock > finalizedBlockNumber s
      then
        (case find (\<lambda>b. hash b = parentHash canonicalBlock) (blocks s) of
           Some commonAncestorBlock \<Rightarrow>
             Some (reconcile env s canonicalBlocksWithTransactions commonAncestorBlock)
         | None \<Rightarrow>
             (case eth_getBlockByHash env (parentHash canonicalBlock) True of
                Inl err \<Rightarrow>
                  Some (Some err, effect (Request (GetBlockByHash (parentHash canonicalBlock) True)) s)
              | Inr None \<Rightarrow>
                  Some (Some (Error (''Failed to fetch parent block with hash: ''
                                       @ parentHash canonicalBlock)),
                        effect (Request (GetBlockByHash (parentHash canonicalBlock) True)) s)
              | Inr (Some parentBlock) \<Rightarrow>
                  traverse env (effect (Request (GetBlockByHash (parentHash canonicalBlock) True)) s)
                    newBlock (parentBlock # canonicalBlocksWithTransactions)
                    (rpcBlockToLightBlock parentBlock) (depth + 1)))
      else Some (None, effect (Emit (deepReorg (number newBlock) depth)) s))"

declare traverse.simps [code]

text \<open>
  \<open>blockTaskWorker\<close>.  With an empty local chain \<open>previousHeadBlock\<close> is \<open>undefined\<close>: no
  block is found in case 1, and case 2 reads \<open>previousHeadBlock.number\<close>.
\<close>

definition blockTaskWorker ::
  "Env \<Rightarrow> Service \<Rightarrow> BlockWithTransactions \<Rightarrow> (error option \<times> Service) option" where
  "blockTaskWorker env s block =
     (case blocks s of
        [] \<Rightarrow> Some (Some TypeError, s)
      | _ # _ \<Rightarrow>
          (let previousHeadBlock = last (blocks s);
               newBlock = rpcBlockToLightBlock block
           in if find (\<lambda>b. hash b = hash newBlock) (blocks s) \<noteq> None then Some (None, s)
              else if number newBlock = number previousHeadBlock + 1
                      \<and> parentHash newBlock = hash previousHeadBlock
              then Some (newHead env s block)
              else if number newBlock > number previousHeadBlock + 1
              then Some (fillGap env s previousHeadBlock block)
              else traverse env s newBlock [block] newBlock 0))"

text \<open>Blocks, a network and a service for the worked examples: the local chain
  \<open>98, 99, 100\<close> above the finalized block \<open>98\<close>, one log filter, an RPC that knows a
  fork \<open>X100\<close> of block 100 and a block \<open>Y98\<close>, and whose latest block is 200.\<close>

definition rpcBlock :: "string \<Rightarrow> nat \<Rightarrow> string \<Rightarrow> BlockWithTransactions" where
  "rpcBlock h n p =
     \<lparr>hash = h, number = n, parentHash = p, timestamp = 1000 + n, logsBloom = ''0x00'',
      gasLimit = ''30000000'', gasUsed = ''0'', baseFeePerGas = ''7'', miner = ''0xm'',
      extraData = ''0x'', blockSize = 500, stateRoot = ''0xs'', transactionsRoot = ''0xr'',
      receiptsRoot = ''0xc'', totalDifficulty = ''1'', transactions = []\<rparr>"

definition exampleEnv :: Env where
  "exampleEnv =
     \<lparr>logFilters = [\<lparr>lf_key = ''k1'', lf_address = ''0xa'', lf_topics = [], lf_endBlock = Some 98\<rparr>],
      chainId = 1, finalityBlockCount = 1,
      eth_getBlockByNumber =
        (\<lambda>tag full. case tag of Latest \<Rightarrow> Inr (Some (rpcBlock ''H200'' 200 ''H199''))
           | BlockNumber n \<Rightarrow> if n = 98 then Inr (Some (rpcBlock ''H98'' 98 ''H97'')) else Inr None),
      eth_getBlockByHash =
        (\<lambda>h full. if h = ''X100'' then Inr (Some (rpcBlock ''X100'' 100 ''H99''))
           else if h = ''Y98'' then Inr (Some (rpcBlock ''Y98'' 98 ''Y97''))
           else Inr None),
      eth_getLogs = (\<lambda>h. Inr []),
      eventStore = (\<lambda>call. None),
      isMatchedLogInBloomFilter = (\<lambda>bloom filters. True),
      filterLogs = (\<lambda>fetched filters. fetched)\<rparr>"

definition exampleService :: Service where
  "exampleService =
     \<lparr>blocks = [rpcBlockToLightBlock (rpcBlock ''H98'' 98 ''H97''),
                rpcBlockToLightBlock (rpcBlock ''H99'' 99 ''H98''),
                rpcBlockToLightBlock (rpcBlock ''H100'' 100 ''H99'')],
      finalizedBlockNumber = 98, queue = [], queueStarted = True, polling = True, effects = []\<rparr>"

text \<open>The service between \<open>setup()\<close> and \<open>start()\<close>: the latest block is in the queue.\<close>

definition exampleSetup :: Service where
  "exampleSetup =
     \<lparr>blocks = [], finalizedBlockNumber = 98,
      queue = [(rpcBlock ''H99'' 99 ''H98'', MAX_SAFE_INTEGER - 99)],
      queueStarted = False, polling = False, effects = []\<rparr>"

text \<open>
  The parents that the loop of case 4 fetches, in the order it fetches them: from each
  cursor above the finalized block whose parent is not in the local chain, the RPC
  returns the next one.
\<close>

fun ascends :: "Env \<Rightarrow> LightBlock list \<Rightarrow> nat \<Rightarrow> LightBlock \<Rightarrow> BlockWithTransactions list \<Rightarrow> bool" where
  "ascends env localChain finalized cursor [] = True"
| "ascends env localChain finalized cursor (parentBlock # others) =
     (number cursor > finalized
      \<and> find (\<lambda>b. hash b = parentHash cursor) localChain = None
      \<and> eth_getBlockByHash env (parentHash cursor) True = Inr (Some parentBlock)
      \<and> ascends env localChain finalized (rpcBlockToLightBlock parentBlock) others)"

text \<open>The requests of that traversal: one for the parent of each block but the last.\<close>

definition parentRequests :: "BlockWithTransactions list \<Rightarrow> Effect list" where
  "parentRequests chain = map (\<lambda>child. Request (GetBlockByHash (parentHash child) True)) (butlast chain)"

section \<open>Properties of the cache store\<close>

subsection \<open>Contract calls\<close>

lemma get_after_upsert:
  "getContractCall (upsertContractCall rows c) (key c) = Some c"
  by (induction rows) (simp_all add: getContractCall_def)

lemma get_other_after_upsert:
  "k \<noteq> key c \<Longrightarrow> getContractCall (upsertContractCall rows c) k = getContractCall rows k"
  by (induction rows) (auto simp add: getContractCall_def)

lemma get_never_upserted:
  "k \<notin> key ` set cs \<Longrightarrow> getContractCall (foldl upsertContractCall rows cs) k = getContractCall rows k"
  by (induction cs arbitrary: rows) (simp_all add: get_other_after_upsert)

text \<open>
  C10.  After \<open>upsertContractCall {key: k, result: r}\<close> on any table, \<open>getContractCall k\<close>
  returns \<open>{key: k, result: r}\<close>, whatever was stored for \<open>k\<close> before; and on a table
  built from the empty one by upserts of other keys only, \<open>getContractCall k\<close> returns \<open>null\<close>.
\<close>

theorem contract_call_last_write_wins:
  "getContractCall (upsertContractCall rows \<lparr>key = k, result = r\<rparr>) k = Some \<lparr>key = k, result = r\<rparr>
   \<and> (k \<notin> key ` set cs \<longrightarrow> getContractCall (foldl upsertContractCall [] cs) k = None)"
proof
  show "getContractCall (upsertContractCall rows \<lparr>key = k, result = r\<rparr>) k = Some \<lparr>key = k, result = r\<rparr>"
    using get_after_upsert [of rows "\<lparr>key = k, result = r\<rparr>"] by simp
next
  show "k \<notin> key ` set cs \<longrightarrow> getContractCall (foldl upsertContractCall [] cs) k = None"
    using get_never_upserted [of k cs "[]"] by (simp add: getContractCall_def)
qed

theorem contract_call_last_write_wins_witness:
  "getContractCall (upsertContractCall [\<lparr>key = ''a'', result = ''1''\<rparr>] \<lparr>key = ''a'', result = ''2''\<rparr>) ''a''
     = Some \<lparr>key = ''a'', result = ''2''\<rparr>
   \<and> ''b'' \<notin> key ` set [\<lparr>key = ''a'', result = ''1''\<rparr>, \<lparr>key = ''c'', result = ''3''\<rparr>]
   \<and> getContractCall (foldl upsertContractCall [] [\<lparr>key = ''a'', result = ''1''\<rparr>, \<lparr>key = ''c'', result = ''3''\<rparr>]) ''b'' = None"
  using contract_call_last_write_wins [of "[\<lparr>key = ''a'', result = ''1''\<rparr>]" "''a''" "''2''"]
    contract_call_last_write_wins [where k = "''b''"
      and cs = "[\<lparr>key = ''a'', result = ''1''\<rparr>, \<lparr>key = ''c'', result = ''3''\<rparr>]"]
  by simp

subsection \<open>Cached intervals\<close>

lemma touching_sorted:
  "wellFormed p \<Longrightarrow> wellFormed q \<Longrightarrow> fst p \<le> fst q \<Longrightarrow> touching p q = (fst q \<le> snd p + 1)"
  by (auto simp: touching_def wellFormed_def)

lemma combine_sorted:
  "fst p \<le> fst q \<Longrightarrow> combine p q = (fst p, max (snd p) (snd q))"
  by (simp add: combine_def)

lemma blocksOf_combine:
  "wellFormed p \<Longrightarrow> wellFormed q \<Longrightarrow> fst p \<le> fst q \<Longrightarrow> touching p q
     \<Longrightarrow> blocksOf (combine p q) = blocksOf p \<union> blocksOf q"
  by (auto simp: touching_def wellFormed_def blocksOf_def combine_def)

lemma wellFormed_combine:
  "wellFormed p \<Longrightarrow> wellFormed q \<Longrightarrow> wellFormed (combine p q)"
  by (auto simp: wellFormed_def combine_def)

lemma sweep_ends: "snd ` set (sweep cur rest) \<subseteq> snd ` set (cur # rest)"
proof (induction rest arbitrary: cur)
  case Nil
  show ?case by simp
next
  case (Cons q rest)
  have c: "snd (combine cur q) = snd cur \<or> snd (combine cur q) = snd q"
    by (auto simp: combine_def max_def)
  show ?case
  proof (cases "touching cur q")
    case True
    with Cons [of "combine cur q"] c show ?thesis by auto
  next
    case False
    with Cons [of q] show ?thesis by auto
  qed
qed

lemma sweep_wellFormed:
  "wellFormed cur \<Longrightarrow> \<forall>q \<in> set rest. wellFormed q \<Longrightarrow> \<forall>p \<in> set (sweep cur rest). wellFormed p"
proof (induction rest arbitrary: cur)
  case Nil
  then show ?case by simp
next
  case (Cons q rest)
  show ?case
  proof (cases "touching cur q")
    case True
    have "wellFormed (combine cur q)" using Cons.prems by (simp add: wellFormed_combine)
    with Cons.IH [of "combine cur q"] Cons.prems True show ?thesis by simp
  next
    case False
    with Cons.IH [of q] Cons.prems show ?thesis by simp
  qed
qed

lemma sweep_starts:
  "sorted (map fst (cur # rest)) \<Longrightarrow> \<forall>p \<in> set (sweep cur rest). fst cur \<le> fst p"
proof (induction rest arbitrary: cur)
  case Nil
  show ?case by simp
next
  case (Cons q rest)
  from Cons.prems have le: "fst cur \<le> fst q" and sq: "sorted (map fst (q # rest))"
    and all: "\<forall>x \<in> set rest. fst cur \<le> fst x" by auto
  show ?case
  proof (cases "touching cur q")
    case True
    have "fst (combine cur q) = fst cur" using le by (simp add: combine_def)
    moreover have "sorted (map fst (combine cur q # rest))"
      using sq all le by (auto simp: combine_def)
    ultimately show ?thesis using True Cons.IH [of "combine cur q"] by simp
  next
    case False
    from Cons.IH [OF sq] le have "\<forall>p \<in> set (sweep q rest). fst cur \<le> fst p" by auto
    with False show ?thesis by simp
  qed
qed

lemma sweep_gapped:
  "wellFormed cur \<Longrightarrow> \<forall>q \<in> set rest. wellFormed q \<Longrightarrow> sorted (map fst (cur # rest))
     \<Longrightarrow> gapped (sweep cur rest)"
proof (induction rest arbitrary: cur)
  case Nil
  show ?case by (simp add: gapped_def)
next
  case (Cons q rest)
  from Cons.prems have le: "fst cur \<le> fst q" and sq: "sorted (map fst (q # rest))"
    and all: "\<forall>x \<in> set rest. fst cur \<le> fst x" and wq: "wellFormed q"
    and wr: "\<forall>x \<in> set rest. wellFormed x" by auto
  show ?case
  proof (cases "touching cur q")
    case True
    have "sorted (map fst (combine cur q # rest))"
      using sq all le by (auto simp: combine_def)
    with True Cons.IH [of "combine cur q"] Cons.prems(1) wq wr show ?thesis
      by (simp add: wellFormed_combine)
  next
    case False
    then have gap: "snd cur + 1 < fst q"
      using touching_sorted [OF Cons.prems(1) wq le] by simp
    have "\<forall>p \<in> set (sweep q rest). fst q \<le> fst p" using sweep_starts [OF sq] .
    with gap have "\<forall>p \<in> set (sweep q rest). snd cur + 1 < fst p" by auto
    moreover have "gapped (sweep q rest)" using Cons.IH [OF wq wr sq] .
    ultimately show ?thesis using False by (simp add: gapped_def)
  qed
qed

lemma sweep_blocks:
  "wellFormed cur \<Longrightarrow> \<forall>q \<in> set rest. wellFormed q \<Longrightarrow> sorted (map fst (cur # rest))
     \<Longrightarrow> (\<Union>p \<in> set (sweep cur rest). blocksOf p) = blocksOf cur \<union> (\<Union>q \<in> set rest. blocksOf q)"
proof (induction rest arbitrary: cur)
  case Nil
  show ?case by simp
next
  case (Cons q rest)
  from Cons.prems have le: "fst cur \<le> fst q" and sq: "sorted (map fst (q # rest))"
    and all: "\<forall>x \<in> set rest. fst cur \<le> fst x" and wq: "wellFormed q"
    and wr: "\<forall>x \<in> set rest. wellFormed x" by auto
  show ?case
  proof (cases "touching cur q")
    case True
    have "sorted (map fst (combine cur q # rest))"
      using sq all le by (auto simp: combine_def)
    then have "(\<Union>p \<in> set (sweep (combine cur q) rest). blocksOf p)
        = blocksOf (combine cur q) \<union> (\<Union>q \<in> set rest. blocksOf q)"
      using Cons.IH [of "combine cur q"] Cons.prems(1) wq wr by (simp add: wellFormed_combine)
    with True blocksOf_combine [OF Cons.prems(1) wq le True] show ?thesis by auto
  next
    case False
    with Cons.IH [OF wq wr sq] show ?thesis by auto
  qed
qed

lemma merge_intervals_ends: "snd ` set (merge_intervals ps) \<subseteq> snd ` set ps"
proof (cases "sort_key fst ps")
  case Nil
  then show ?thesis by (simp add: merge_intervals_def)
next
  case (Cons p rest)
  have s: "set (p # rest) = set ps" using Cons set_sort [of fst ps] by simp
  have m: "merge_intervals ps = sweep p rest" using Cons by (simp add: merge_intervals_def)
  show ?thesis unfolding m s [symmetric] by (rule sweep_ends)
qed

lemma merge_intervals_props:
  assumes "\<forall>p \<in> set ps. wellFormed p"
  shows "gapped (merge_intervals ps)"
    and "\<forall>p \<in> set (merge_intervals ps). wellFormed p"
    and "(\<Union>p \<in> set (merge_intervals ps). blocksOf p) = (\<Union>p \<in> set ps. blocksOf p)"
proof -
  show "gapped (merge_intervals ps)"
  proof (cases "sort_key fst ps")
    case Nil
    then show ?thesis by (simp add: merge_intervals_def gapped_def)
  next
    case (Cons p rest)
    have s: "set (p # rest) = set ps" using Cons set_sort [of fst ps] by simp
    have "sorted (map fst (p # rest))" using Cons sorted_sort_key [of fst ps] by simp
    moreover have "wellFormed p" "\<forall>q \<in> set rest. wellFormed q" using s assms by auto
    ultimately show ?thesis using Cons sweep_gapped [of p rest] by (simp add: merge_intervals_def)
  qed
  show "\<forall>p \<in> set (merge_intervals ps). wellFormed p"
  proof (cases "sort_key fst ps")
    case Nil
    then show ?thesis by (simp add: merge_intervals_def)
  next
    case (Cons p rest)
    have s: "set (p # rest) = set ps" using Cons set_sort [of fst ps] by simp
    have "wellFormed p" "\<forall>q \<in> set rest. wellFormed q" using s assms by auto
    then show ?thesis using Cons sweep_wellFormed [of p rest] by (simp add: merge_intervals_def)
  qed
  show "(\<Union>p \<in> set (merge_intervals ps). blocksOf p) = (\<Union>p \<in> set ps. blocksOf p)"
  proof (cases "sort_key fst ps")
    case Nil
    then have "ps = []" using length_sort [of fst ps] by simp
    then show ?thesis by (simp add: merge_intervals_def)
  next
    case (Cons p rest)
    have s: "set (p # rest) = set ps" using Cons set_sort [of fst ps] by simp
    have "sorted (map fst (p # rest))" using Cons sorted_sort_key [of fst ps] by simp
    moreover have "wellFormed p" "\<forall>q \<in> set rest. wellFormed q" using s assms by auto
    ultimately have "(\<Union>x \<in> set (sweep p rest). blocksOf x) = blocksOf p \<union> (\<Union>q \<in> set rest. blocksOf q)"
      using sweep_blocks [of p rest] by blast
    also have "\<dots> = (\<Union>x \<in> set (p # rest). blocksOf x)" by simp
    finally have u: "(\<Union>x \<in> set (sweep p rest). blocksOf x) = (\<Union>x \<in> set (p # rest). blocksOf x)" .
    have m: "merge_intervals ps = sweep p rest" using Cons by (simp add: merge_intervals_def)
    show ?thesis unfolding m s [symmetric] by (rule u)
  qed
qed

lemma insertMerged_Inl:
  "\<exists>m \<in> set ms. \<forall>old \<in> set olds. endBlock old \<noteq> snd m
     \<Longrightarrow> insertMerged c olds ms = Inl (Error ''Old interval with endBlock not found'')"
proof (induction ms)
  case Nil
  then show ?case by simp
next
  case (Cons m ms)
  show ?case
  proof (cases "find (\<lambda>old. endBlock old = snd m) olds")
    case None
    then show ?thesis by simp
  next
    case (Some e)
    then have "\<exists>old \<in> set olds. endBlock old = snd m"
      by (auto simp: find_Some_iff)
    with Cons.prems have "\<exists>m \<in> set ms. \<forall>old \<in> set olds. endBlock old \<noteq> snd m" by auto
    with Cons.IH Some show ?thesis by simp
  qed
qed

lemma insertMerged_Inr:
  "\<forall>m \<in> set ms. \<exists>old \<in> set olds. endBlock old = snd m
     \<Longrightarrow> \<exists>rows. insertMerged c olds ms = Inr rows \<and> map blockRange rows = ms
           \<and> (\<forall>r \<in> set rows. contractAddress r = c
                 \<and> (\<exists>old. find (\<lambda>old. endBlock old = endBlock r) olds = Some old
                        \<and> endBlockTimestamp r = endBlockTimestamp old))"
proof (induction ms)
  case Nil
  then show ?case by simp
next
  case (Cons m ms)
  from Cons.prems obtain e where e: "find (\<lambda>old. endBlock old = snd m) olds = Some e"
    by (cases "find (\<lambda>old. endBlock old = snd m) olds") (auto simp: find_None_iff)
  from Cons obtain rows where rows: "insertMerged c olds ms = Inr rows" "map blockRange rows = ms"
    "\<forall>r \<in> set rows. contractAddress r = c
        \<and> (\<exists>old. find (\<lambda>old. endBlock old = endBlock r) olds = Some old
              \<and> endBlockTimestamp r = endBlockTimestamp old)"
    by auto
  have "blockRange \<lparr>contractAddress = c, startBlock = fst m, endBlock = snd m,
      endBlockTimestamp = endBlockTimestamp e\<rparr> = m"
    by (simp add: blockRange_def)
  with e rows show ?case by simp
qed

lemma getCachedIntervals_replaced:
  assumes "\<forall>r \<in> set rows. contractAddress r = c"
  shows "getCachedIntervals (filter (\<lambda>row. contractAddress row \<noteq> c) table @ rows) a
           = (if a = c then rows else getCachedIntervals table a)"
proof -
  have "filter (\<lambda>row. contractAddress row = c) rows = rows" using assms by (simp add: filter_id_conv)
  moreover have "a \<noteq> c \<Longrightarrow> filter (\<lambda>row. contractAddress row = a) rows = []"
    using assms by (auto simp: filter_empty_conv)
  moreover have "a \<noteq> c \<Longrightarrow> filter (\<lambda>x. contractAddress x \<noteq> c \<and> contractAddress x = a) table
      = filter (\<lambda>x. contractAddress x = a) table"
    by (rule filter_cong) auto
  moreover have "filter (\<lambda>x. contractAddress x \<noteq> c \<and> contractAddress x = c) table = []"
    by (simp add: filter_empty_conv)
  ultimately show ?thesis by (simp add: getCachedIntervals_def)
qed

lemma insertCachedInterval_result:
  fixes table iv
  defines "c \<equiv> contractAddress iv"
  defines "existing \<equiv> getCachedIntervals table c"
  shows "\<exists>rows. insertCachedInterval table iv = Inr (filter (\<lambda>row. contractAddress row \<noteq> c) table @ rows)
      \<and> (\<forall>r \<in> set rows. contractAddress r = c)
      \<and> (if existing = [] then rows = [iv]
          else map blockRange rows = merge_intervals (map blockRange existing @ [blockRange iv])
             \<and> (\<forall>r \<in> set rows. \<exists>old. find (\<lambda>old. endBlock old = endBlock r) (iv # existing) = Some old
                        \<and> endBlockTimestamp r = endBlockTimestamp old))"
proof (cases "existing = []")
  case True
  then show ?thesis
    by (simp add: insertCachedInterval_def insertCachedIntervalWith_def existing_def c_def
        getCachedIntervals_def)
next
  case False
  let ?ms = "merge_intervals (map blockRange existing @ [blockRange iv])"
  have "snd ` set ?ms \<subseteq> snd ` set (map blockRange existing @ [blockRange iv])"
    by (rule merge_intervals_ends)
  moreover have "snd ` set (map blockRange existing @ [blockRange iv]) = endBlock ` set (iv # existing)"
    by (auto simp: blockRange_def image_iff)
  ultimately have "\<forall>m \<in> set ?ms. snd m \<in> endBlock ` set (iv # existing)" by blast
  then have "\<forall>m \<in> set ?ms. \<exists>old \<in> set (iv # existing). endBlock old = snd m"
    by (metis (no_types, lifting) imageE)
  from insertMerged_Inr [OF this, of c] obtain rows where
    rows: "insertMerged c (iv # existing) ?ms = Inr rows" "map blockRange rows = ?ms"
      "\<forall>r \<in> set rows. contractAddress r = c
        \<and> (\<exists>old. find (\<lambda>old. endBlock old = endBlock r) (iv # existing) = Some old
              \<and> endBlockTimestamp r = endBlockTimestamp old)"
    by blast
  have bl: "(\<lambda>row. (startBlock row, endBlock row)) = blockRange"
    by (rule ext) (simp add: blockRange_def)
  have "insertCachedInterval table iv = Inr (filter (\<lambda>row. contractAddress row \<noteq> c) table @ rows)"
    using False rows(1)
    by (simp add: insertCachedInterval_def insertCachedIntervalWith_def existing_def c_def
        getCachedIntervals_def bl blockRange_def [of iv, symmetric] Let_def)
  with rows(2,3) False show ?thesis by auto
qed

lemma apart_of_gapped:
  "map blockRange rows = ps \<Longrightarrow> gapped ps \<Longrightarrow> \<forall>p \<in> set ps. wellFormed p \<Longrightarrow> apart rows"
proof (induction rows arbitrary: ps)
  case Nil
  show ?case by simp
next
  case (Cons r rows)
  from Cons.prems have ps: "ps = blockRange r # map blockRange rows" by auto
  with Cons.prems have g: "\<forall>s \<in> set rows. endBlock r + 1 < startBlock s"
    and g': "gapped (map blockRange rows)" and w: "\<forall>p \<in> set (map blockRange rows). wellFormed p"
    by (auto simp: gapped_def blockRange_def)
  have "apart rows" using Cons.IH [OF refl g' w] .
  moreover have "\<forall>s \<in> set rows. \<not> overlapOrAdjacent r s"
    using g by (auto simp: overlapOrAdjacent_def)
  ultimately show ?case by simp
qed

lemma find_first_match:
  "find P xs = Some x \<Longrightarrow> x \<in> set xs \<and> P x"
  by (auto simp: find_Some_iff)

lemma insertCachedInterval_step:
  fixes table iv
  defines "c \<equiv> contractAddress iv"
  assumes wt: "\<forall>r \<in> set table. startBlock r \<le> endBlock r" and wi: "startBlock iv \<le> endBlock iv"
  shows "\<exists>table'. insertCachedInterval table iv = Inr table'
      \<and> (\<forall>r \<in> set table'. startBlock r \<le> endBlock r)
      \<and> apart (getCachedIntervals table' c)
      \<and> (\<forall>a. a \<noteq> c \<longrightarrow> getCachedIntervals table' a = getCachedIntervals table a)
      \<and> (\<forall>r \<in> set table'. r \<in> set table
            \<or> (\<exists>old \<in> set (iv # table). contractAddress old = contractAddress r
                  \<and> endBlock old = endBlock r \<and> endBlockTimestamp old = endBlockTimestamp r))
      \<and> (\<forall>n. startBlock iv \<le> n \<and> n \<le> endBlock iv
            \<longrightarrow> (\<exists>r \<in> set (getCachedIntervals table' c). startBlock r \<le> n \<and> n \<le> endBlock r))
      \<and> (\<forall>r \<in> set (getCachedIntervals table' c). endBlock r = endBlock iv
            \<longrightarrow> endBlockTimestamp r = endBlockTimestamp iv)"
proof -
  let ?existing = "getCachedIntervals table c"
  let ?others = "filter (\<lambda>row. contractAddress row \<noteq> c) table"
  from insertCachedInterval_result [of table iv] obtain rows where
    res: "insertCachedInterval table iv = Inr (?others @ rows)"
    and ca: "\<forall>r \<in> set rows. contractAddress r = c"
    and sh: "if ?existing = [] then rows = [iv]
          else map blockRange rows = merge_intervals (map blockRange ?existing @ [blockRange iv])
             \<and> (\<forall>r \<in> set rows. \<exists>old. find (\<lambda>old. endBlock old = endBlock r) (iv # ?existing) = Some old
                        \<and> endBlockTimestamp r = endBlockTimestamp old)"
    unfolding c_def by blast
  have get: "\<And>a. getCachedIntervals (?others @ rows) a = (if a = c then rows else getCachedIntervals table a)"
    using getCachedIntervals_replaced [OF ca] .
  have ex_sub: "set ?existing \<subseteq> set table" by (auto simp: getCachedIntervals_def)
  have ex_ca: "\<forall>r \<in> set ?existing. contractAddress r = c" by (auto simp: getCachedIntervals_def)
  have props: "(\<forall>r \<in> set rows. startBlock r \<le> endBlock r) \<and> apart rows
      \<and> (\<forall>r \<in> set rows. \<exists>old \<in> set (iv # ?existing).
             endBlock old = endBlock r \<and> endBlockTimestamp old = endBlockTimestamp r)
      \<and> (\<forall>n. startBlock iv \<le> n \<and> n \<le> endBlock iv \<longrightarrow> (\<exists>r \<in> set rows. startBlock r \<le> n \<and> n \<le> endBlock r))
      \<and> (\<forall>r \<in> set rows. endBlock r = endBlock iv \<longrightarrow> endBlockTimestamp r = endBlockTimestamp iv)"
  proof (cases "?existing = []")
    case True
    with sh have "rows = [iv]" by simp
    then show ?thesis using wi by simp
  next
    case False
    let ?ps = "map blockRange ?existing @ [blockRange iv]"
    from False sh have m: "map blockRange rows = merge_intervals ?ps"
      and f: "\<forall>r \<in> set rows. \<exists>old. find (\<lambda>old. endBlock old = endBlock r) (iv # ?existing) = Some old
                        \<and> endBlockTimestamp r = endBlockTimestamp old"
      by auto
    have wps: "\<forall>p \<in> set ?ps. wellFormed p"
      using wt wi ex_sub by (auto simp: wellFormed_def blockRange_def)
    note mp = merge_intervals_props [OF wps]
    have 1: "\<forall>r \<in> set rows. startBlock r \<le> endBlock r"
    proof
      fix r assume "r \<in> set rows"
      then have "blockRange r \<in> set (merge_intervals ?ps)" using m [symmetric] by simp
      with mp(2) show "startBlock r \<le> endBlock r" by (auto simp: wellFormed_def blockRange_def)
    qed
    have 2: "apart rows" using apart_of_gapped [OF m mp(1) mp(2)] .
    have 3: "\<forall>r \<in> set rows. \<exists>old \<in> set (iv # ?existing).
             endBlock old = endBlock r \<and> endBlockTimestamp old = endBlockTimestamp r"
    proof
      fix r assume "r \<in> set rows"
      with f obtain old where "find (\<lambda>old. endBlock old = endBlock r) (iv # ?existing) = Some old"
        "endBlockTimestamp r = endBlockTimestamp old" by blast
      with find_first_match [of "\<lambda>old. endBlock old = endBlock r" "iv # ?existing" old]
      show "\<exists>old \<in> set (iv # ?existing). endBlock old = endBlock r \<and> endBlockTimestamp old = endBlockTimestamp r"
        by auto
    qed
    have 4: "\<forall>n. startBlock iv \<le> n \<and> n \<le> endBlock iv \<longrightarrow> (\<exists>r \<in> set rows. startBlock r \<le> n \<and> n \<le> endBlock r)"
    proof (intro allI impI)
      fix n assume "startBlock iv \<le> n \<and> n \<le> endBlock iv"
      then have "n \<in> (\<Union>p \<in> set ?ps. blocksOf p)" by (auto simp: blocksOf_def blockRange_def)
      with mp(3) have "n \<in> (\<Union>p \<in> set (map blockRange rows). blocksOf p)" using m by simp
      then show "\<exists>r \<in> set rows. startBlock r \<le> n \<and> n \<le> endBlock r"
        by (auto simp: blocksOf_def blockRange_def)
    qed
    have 5: "\<forall>r \<in> set rows. endBlock r = endBlock iv \<longrightarrow> endBlockTimestamp r = endBlockTimestamp iv"
      using f by auto
    from 1 2 3 4 5 show ?thesis by blast
  qed
  have A: "\<forall>r \<in> set (?others @ rows). startBlock r \<le> endBlock r" using props wt by auto
  have B: "apart (getCachedIntervals (?others @ rows) c)" using props get by simp
  have C: "\<forall>a. a \<noteq> c \<longrightarrow> getCachedIntervals (?others @ rows) a = getCachedIntervals table a"
    using get by simp
  have D: "\<forall>r \<in> set (?others @ rows). r \<in> set table
            \<or> (\<exists>old \<in> set (iv # table). contractAddress old = contractAddress r
                  \<and> endBlock old = endBlock r \<and> endBlockTimestamp old = endBlockTimestamp r)"
  proof
    fix r assume "r \<in> set (?others @ rows)"
    then consider "r \<in> set table" | "r \<in> set rows" by auto
    then show "r \<in> set table
            \<or> (\<exists>old \<in> set (iv # table). contractAddress old = contractAddress r
                  \<and> endBlock old = endBlock r \<and> endBlockTimestamp old = endBlockTimestamp r)"
    proof cases
      case 1
      then show ?thesis by simp
    next
      case 2
      with props obtain old where o: "old \<in> set (iv # ?existing)" "endBlock old = endBlock r"
        "endBlockTimestamp old = endBlockTimestamp r" by blast
      from o(1) ex_ca have "contractAddress old = c" by (auto simp: c_def)
      moreover have "contractAddress r = c" using 2 ca by simp
      moreover have "old \<in> set (iv # table)" using o(1) ex_sub by auto
      ultimately show ?thesis using o by auto
    qed
  qed
  have E: "\<forall>n. startBlock iv \<le> n \<and> n \<le> endBlock iv
            \<longrightarrow> (\<exists>r \<in> set (getCachedIntervals (?others @ rows) c). startBlock r \<le> n \<and> n \<le> endBlock r)"
    using props get by simp
  have F: "\<forall>r \<in> set (getCachedIntervals (?others @ rows) c). endBlock r = endBlock iv
            \<longrightarrow> endBlockTimestamp r = endBlockTimestamp iv"
    using props get by simp
  from res A B C D E F show ?thesis by blast
qed







lemma insertCachedIntervalWith_merge:
  assumes "getCachedIntervals table (contractAddress iv) \<noteq> []"
  shows "insertCachedIntervalWith merge table iv =
     (case insertMerged (contractAddress iv) (iv # getCachedIntervals table (contractAddress iv))
             (merge (map (\<lambda>row. (startBlock row, endBlock row)) (getCachedIntervals table (contractAddress iv))
                       @ [(startBlock iv, endBlock iv)])) of
        Inl err \<Rightarrow> Inl err
      | Inr rows \<Rightarrow> Inr (filter (\<lambda>row. contractAddress row \<noteq> contractAddress iv) table @ rows))"
  using assms by (simp add: insertCachedIntervalWith_def getCachedIntervals_def Let_def)

text \<open>
  C5.  In an interval-merge write (the contract has rows already), whatever
  \<open>merge_intervals\<close> returns: when every merged interval has its \<open>endBlock\<close> among the
  \<open>endBlock\<close>s of the new interval and of the deleted rows, one row is inserted for each
  merged interval, with the \<open>endBlockTimestamp\<close> of the first such contributor (the new
  interval first); otherwise \<open>insertCachedInterval\<close> throws and no row is written.
\<close>

theorem merged_timestamp_sourced_or_throws:
  assumes "getCachedIntervals table (contractAddress iv) \<noteq> []"
  shows "let existing = getCachedIntervals table (contractAddress iv);
             merged = merge (map (\<lambda>row. (startBlock row, endBlock row)) existing
                               @ [(startBlock iv, endBlock iv)])
         in if \<forall>m \<in> set merged. \<exists>old \<in> set (iv # existing). endBlock old = snd m
            then \<exists>table'. insertCachedIntervalWith merge table iv = Inr table'
                   \<and> map (\<lambda>row. (startBlock row, endBlock row)) (getCachedIntervals table' (contractAddress iv))
                       = merged
                   \<and> (\<forall>row \<in> set (getCachedIntervals table' (contractAddress iv)).
                        \<exists>old. find (\<lambda>old. endBlock old = endBlock row) (iv # existing) = Some old
                            \<and> endBlockTimestamp row = endBlockTimestamp old)
            else insertCachedIntervalWith merge table iv = Inl (Error ''Old interval with endBlock not found'')"
proof -
  let ?c = "contractAddress iv"
  let ?existing = "getCachedIntervals table ?c"
  let ?merged = "merge (map (\<lambda>row. (startBlock row, endBlock row)) ?existing @ [(startBlock iv, endBlock iv)])"
  note unf = insertCachedIntervalWith_merge [OF assms, of merge]
  have bl: "(\<lambda>row. (startBlock row, endBlock row)) = blockRange"
    by (rule ext) (simp add: blockRange_def)
  show ?thesis
  proof (cases "\<forall>m \<in> set ?merged. \<exists>old \<in> set (iv # ?existing). endBlock old = snd m")
    case True
    from insertMerged_Inr [OF True, of ?c] obtain rows where
      rows: "insertMerged ?c (iv # ?existing) ?merged = Inr rows" "map blockRange rows = ?merged"
        "\<forall>r \<in> set rows. contractAddress r = ?c
          \<and> (\<exists>old. find (\<lambda>old. endBlock old = endBlock r) (iv # ?existing) = Some old
                \<and> endBlockTimestamp r = endBlockTimestamp old)"
      by blast
    let ?table' = "filter (\<lambda>row. contractAddress row \<noteq> ?c) table @ rows"
    have r: "insertCachedIntervalWith merge table iv = Inr ?table'" using unf rows(1) by simp
    have "\<forall>r \<in> set rows. contractAddress r = ?c" using rows(3) by blast
    from getCachedIntervals_replaced [OF this, of table ?c]
    have g: "getCachedIntervals ?table' ?c = rows" by simp
    have "map (\<lambda>row. (startBlock row, endBlock row)) (getCachedIntervals ?table' ?c) = ?merged"
      unfolding g using rows(2) by (simp only: bl)
    moreover have "\<forall>row \<in> set (getCachedIntervals ?table' ?c).
        \<exists>old. find (\<lambda>old. endBlock old = endBlock row) (iv # ?existing) = Some old
            \<and> endBlockTimestamp row = endBlockTimestamp old"
      unfolding g using rows(3) by blast
    ultimately have ok: "\<exists>table'. insertCachedIntervalWith merge table iv = Inr table'
                   \<and> map (\<lambda>row. (startBlock row, endBlock row)) (getCachedIntervals table' ?c) = ?merged
                   \<and> (\<forall>row \<in> set (getCachedIntervals table' ?c).
                        \<exists>old. find (\<lambda>old. endBlock old = endBlock row) (iv # ?existing) = Some old
                            \<and> endBlockTimestamp row = endBlockTimestamp old)"
      using r by blast
    show ?thesis unfolding Let_def if_P [OF True] by (rule ok)
  next
    case False
    then have "\<exists>m \<in> set ?merged. \<forall>old \<in> set (iv # ?existing). endBlock old \<noteq> snd m" by blast
    from insertMerged_Inl [OF this, of ?c]
    have bad: "insertCachedIntervalWith merge table iv = Inl (Error ''Old interval with endBlock not found'')"
      using unf by simp
    show ?thesis unfolding Let_def if_not_P [OF False] by (rule bad)
  qed
qed

theorem merged_timestamp_sourced_or_throws_witness:
  "getCachedIntervals [\<lparr>contractAddress = ''C'', startBlock = 10, endBlock = 20, endBlockTimestamp = 1020\<rparr>] ''C'' \<noteq> []
   \<and> insertCachedIntervalWith merge_intervals
        [\<lparr>contractAddress = ''C'', startBlock = 10, endBlock = 20, endBlockTimestamp = 1020\<rparr>]
        \<lparr>contractAddress = ''C'', startBlock = 15, endBlock = 20, endBlockTimestamp = 7\<rparr>
      = Inr [\<lparr>contractAddress = ''C'', startBlock = 10, endBlock = 20, endBlockTimestamp = 7\<rparr>]
   \<and> insertCachedIntervalWith (\<lambda>intervals. [(0, 99)])
        [\<lparr>contractAddress = ''C'', startBlock = 10, endBlock = 20, endBlockTimestamp = 1020\<rparr>]
        \<lparr>contractAddress = ''C'', startBlock = 15, endBlock = 20, endBlockTimestamp = 7\<rparr>
      = Inl (Error ''Old interval with endBlock not found'')"
  using merged_timestamp_sourced_or_throws [where merge = merge_intervals
      and table = "[\<lparr>contractAddress = ''C'', startBlock = 10, endBlock = 20, endBlockTimestamp = 1020\<rparr>]"
      and iv = "\<lparr>contractAddress = ''C'', startBlock = 15, endBlock = 20, endBlockTimestamp = 7\<rparr>"]
    merged_timestamp_sourced_or_throws [where merge = "\<lambda>intervals. [(0, 99)]"
      and table = "[\<lparr>contractAddress = ''C'', startBlock = 10, endBlock = 20, endBlockTimestamp = 1020\<rparr>]"
      and iv = "\<lparr>contractAddress = ''C'', startBlock = 15, endBlock = 20, endBlockTimestamp = 7\<rparr>"]
  by (simp add: getCachedIntervals_def insertCachedIntervalWith_def merge_intervals_def
      touching_def combine_def)

lemma overlapOrAdjacent_commute: "overlapOrAdjacent r s = overlapOrAdjacent s r"
  by (simp add: overlapOrAdjacent_def max.commute min.commute)

lemma apart_pairwise:
  "apart rows \<Longrightarrow> r \<in> set rows \<Longrightarrow> s \<in> set rows \<Longrightarrow> r \<noteq> s \<Longrightarrow> \<not> overlapOrAdjacent r s"
proof (induction rows)
  case Nil
  then show ?case by simp
next
  case (Cons x rows)
  then show ?case using overlapOrAdjacent_commute by auto
qed

lemma same_end_overlap:
  "startBlock r \<le> endBlock r \<Longrightarrow> startBlock s \<le> endBlock s \<Longrightarrow> endBlock r = endBlock s
     \<Longrightarrow> overlapOrAdjacent r s"
  by (simp add: overlapOrAdjacent_def)

lemma range_unique:
  assumes wfA: "\<forall>p \<in> A. wellFormed p" and wfB: "\<forall>p \<in> B. wellFormed p"
    and pwA: "\<forall>p \<in> A. \<forall>q \<in> A. p \<noteq> q \<longrightarrow> \<not> touching p q"
    and pwB: "\<forall>p \<in> B. \<forall>q \<in> B. p \<noteq> q \<longrightarrow> \<not> touching p q"
    and eq: "(\<Union>p \<in> A. blocksOf p) = (\<Union>p \<in> B. blocksOf p)"
    and pA: "p \<in> A"
  shows "p \<in> B"
proof -
  obtain a b where p: "p = (a, b)" by (cases p)
  have ab: "a \<le> b" using wfA pA p by (auto simp: wellFormed_def)
  have "a \<in> blocksOf p" using p ab by (simp add: blocksOf_def)
  with pA have "a \<in> (\<Union>p \<in> A. blocksOf p)" by blast
  with eq obtain q where qB: "q \<in> B" and aq: "a \<in> blocksOf q" by blast
  obtain c d where q: "q = (c, d)" by (cases q)
  from aq q have ca: "c \<le> a" and ad: "a \<le> d" by (auto simp: blocksOf_def)
  have "c = a"
  proof (rule ccontr)
    assume "c \<noteq> a"
    with ca have lt: "c < a" by simp
    then have "a - 1 \<in> blocksOf q" using q ad by (auto simp: blocksOf_def)
    with qB eq obtain p' where p'A: "p' \<in> A" and m: "a - 1 \<in> blocksOf p'" by blast
    obtain a' b' where p': "p' = (a', b')" by (cases p')
    from m p' have m': "a' \<le> a - 1" "a - 1 \<le> b'" by (auto simp: blocksOf_def)
    with lt have "a' \<noteq> a" by simp
    then have "p' \<noteq> p" using p p' by simp
    moreover have "max a' a \<le> min b' b + 1" using m' lt ab by simp
    then have "touching p' p" using p p' by (simp add: touching_def)
    ultimately show False using pwA [rule_format, OF p'A pA] by simp
  qed
  have "d = b"
  proof (rule ccontr)
    assume ne: "d \<noteq> b"
    show False
    proof (cases "d < b")
      case True
      then have "d + 1 \<in> blocksOf p" using p ad by (auto simp: blocksOf_def)
      with pA eq obtain q' where q'B: "q' \<in> B" and m: "d + 1 \<in> blocksOf q'" by blast
      obtain c' d' where q': "q' = (c', d')" by (cases q')
      from m q' have m': "c' \<le> d + 1" "d + 1 \<le> d'" by (auto simp: blocksOf_def)
      then have "d \<noteq> d'" by simp
      then have "q \<noteq> q'" using q q' by simp
      moreover have "max c c' \<le> min d d' + 1" using m' ca ad by simp
      then have "touching q q'" using q q' by (simp add: touching_def)
      ultimately show False using pwB [rule_format, OF qB q'B] by simp
    next
      case False
      with ne have "b < d" by simp
      then have "b + 1 \<in> blocksOf q" using q ab \<open>c = a\<close> by (auto simp: blocksOf_def)
      with qB eq obtain p' where p'A: "p' \<in> A" and m: "b + 1 \<in> blocksOf p'" by blast
      obtain a' b' where p': "p' = (a', b')" by (cases p')
      from m p' have m': "a' \<le> b + 1" "b + 1 \<le> b'" by (auto simp: blocksOf_def)
      then have "b \<noteq> b'" by simp
      then have "p \<noteq> p'" using p p' by simp
      moreover have "max a a' \<le> min b b' + 1" using m' ab by simp
      then have "touching p p'" using p p' by (simp add: touching_def)
      ultimately show False using pwA [rule_format, OF pA p'A] by simp
    qed
  qed
  with \<open>c = a\<close> p q qB show ?thesis by simp
qed

lemma rows_range_pairwise:
  assumes "apart rows"
  shows "\<forall>p \<in> blockRange ` set rows. \<forall>q \<in> blockRange ` set rows. p \<noteq> q \<longrightarrow> \<not> touching p q"
proof (intro ballI impI)
  fix p q assume "p \<in> blockRange ` set rows" "q \<in> blockRange ` set rows" "p \<noteq> q"
  then obtain r s where rs: "r \<in> set rows" "s \<in> set rows" "p = blockRange r" "q = blockRange s"
    by blast
  with \<open>p \<noteq> q\<close> have "r \<noteq> s" by auto
  from apart_pairwise [OF assms rs(1,2) this] rs(3,4) show "\<not> touching p q"
    by (simp add: touching_def overlapOrAdjacent_def blockRange_def)
qed

lemma insertCachedInterval_covered:
  fixes table iv
  defines "c \<equiv> contractAddress iv"
  assumes wt: "\<forall>r \<in> set table. startBlock r \<le> endBlock r" and wi: "startBlock iv \<le> endBlock iv"
    and ap: "apart (getCachedIntervals table c)"
    and cov: "\<forall>n. startBlock iv \<le> n \<and> n \<le> endBlock iv
            \<longrightarrow> (\<exists>r \<in> set (getCachedIntervals table c). startBlock r \<le> n \<and> n \<le> endBlock r)"
    and mt: "\<forall>r \<in> set (getCachedIntervals table c). endBlock r = endBlock iv
            \<longrightarrow> endBlockTimestamp r = endBlockTimestamp iv"
  shows "\<exists>table'. insertCachedInterval table iv = Inr table'
      \<and> (\<forall>a. set (getCachedIntervals table' a) = set (getCachedIntervals table a))"
proof -
  let ?existing = "getCachedIntervals table c"
  let ?others = "filter (\<lambda>row. contractAddress row \<noteq> c) table"
  let ?ps = "map blockRange ?existing @ [blockRange iv]"
  have ne: "?existing \<noteq> []" using cov wi by fastforce
  from insertCachedInterval_result [of table iv] ne obtain rows where
    res: "insertCachedInterval table iv = Inr (?others @ rows)"
    and ca: "\<forall>r \<in> set rows. contractAddress r = c"
    and m: "map blockRange rows = merge_intervals ?ps"
    and f: "\<forall>r \<in> set rows. \<exists>old. find (\<lambda>old. endBlock old = endBlock r) (iv # ?existing) = Some old
                        \<and> endBlockTimestamp r = endBlockTimestamp old"
    unfolding c_def by auto
  have ex_sub: "set ?existing \<subseteq> set table" by (auto simp: getCachedIntervals_def)
  have ex_ca: "\<forall>r \<in> set ?existing. contractAddress r = c" by (auto simp: getCachedIntervals_def)
  have ex_wf: "\<forall>r \<in> set ?existing. startBlock r \<le> endBlock r" using wt ex_sub by auto
  have wps: "\<forall>p \<in> set ?ps. wellFormed p"
    using ex_wf wi by (auto simp: wellFormed_def blockRange_def)
  note mp = merge_intervals_props [OF wps]
  have ar: "apart rows" using apart_of_gapped [OF m mp(1) mp(2)] .
  have rw: "\<forall>r \<in> set rows. startBlock r \<le> endBlock r"
  proof
    fix r assume "r \<in> set rows"
    then have "blockRange r \<in> set (merge_intervals ?ps)" using m [symmetric] by simp
    with mp(2) show "startBlock r \<le> endBlock r" by (auto simp: wellFormed_def blockRange_def)
  qed
  let ?A = "blockRange ` set ?existing" and ?B = "blockRange ` set rows"
  have B: "?B = set (merge_intervals ?ps)" using m [symmetric] by simp
  have "blocksOf (blockRange iv) \<subseteq> (\<Union>p \<in> ?A. blocksOf p)"
    using cov by (auto simp: blocksOf_def blockRange_def)
  then have "(\<Union>p \<in> set ?ps. blocksOf p) = (\<Union>p \<in> ?A. blocksOf p)" by auto
  with mp(3) B have eq: "(\<Union>p \<in> ?A. blocksOf p) = (\<Union>p \<in> ?B. blocksOf p)" by simp
  have wfA: "\<forall>p \<in> ?A. wellFormed p" using ex_wf by (auto simp: wellFormed_def blockRange_def)
  have wfB: "\<forall>p \<in> ?B. wellFormed p" using rw by (auto simp: wellFormed_def blockRange_def)
  note pwA = rows_range_pairwise [OF ap] and pwB = rows_range_pairwise [OF ar]
  have AB: "?A = ?B"
  proof (intro set_eqI iffI)
    fix p assume "p \<in> ?A"
    from range_unique [OF wfA wfB pwA pwB eq this] show "p \<in> ?B" .
  next
    fix p assume "p \<in> ?B"
    from range_unique [OF wfB wfA pwB pwA eq [symmetric] this] show "p \<in> ?A" .
  qed
  have sub: "\<And>row. row \<in> set rows \<Longrightarrow> row \<in> set ?existing"
  proof -
    fix row assume rr: "row \<in> set rows"
    then have "blockRange row \<in> ?A" using AB by blast
    then obtain e where e: "e \<in> set ?existing" "blockRange e = blockRange row" by auto
    from rr f obtain old where old: "find (\<lambda>old. endBlock old = endBlock row) (iv # ?existing) = Some old"
      "endBlockTimestamp row = endBlockTimestamp old" by blast
    from find_first_match [OF old(1)] have oin: "old \<in> set (iv # ?existing)"
      and oe: "endBlock old = endBlock row" by auto
    from e(2) have ee: "endBlock e = endBlock row" "startBlock e = startBlock row"
      by (auto simp: blockRange_def)
    have "endBlockTimestamp old = endBlockTimestamp e"
    proof (cases "old = iv")
      case True
      with oe ee mt e(1) show ?thesis by simp
    next
      case False
      with oin have oex: "old \<in> set ?existing" by simp
      have "startBlock old \<le> endBlock old" "startBlock e \<le> endBlock e" "endBlock old = endBlock e"
        using ex_wf oex e(1) oe ee by auto
      then have "overlapOrAdjacent old e" by (rule same_end_overlap)
      with apart_pairwise [OF ap oex e(1)] have "old = e" by blast
      then show ?thesis by simp
    qed
    with old(2) ee ca rr ex_ca e(1) have "row = e" by simp
    with e(1) show "row \<in> set ?existing" by simp
  qed
  have sup: "\<And>e. e \<in> set ?existing \<Longrightarrow> e \<in> set rows"
  proof -
    fix e assume ein: "e \<in> set ?existing"
    then have "blockRange e \<in> ?B" using AB by blast
    then obtain row where row: "row \<in> set rows" "blockRange row = blockRange e" by auto
    from sub [OF row(1)] have rin: "row \<in> set ?existing" .
    have "startBlock row \<le> endBlock row" "startBlock e \<le> endBlock e" "endBlock row = endBlock e"
      using ex_wf rin ein row(2) by (auto simp: blockRange_def)
    then have "overlapOrAdjacent row e" by (rule same_end_overlap)
    with apart_pairwise [OF ap rin ein] have "row = e" by blast
    with row(1) show "e \<in> set rows" by simp
  qed
  have "set rows = set ?existing" using sub sup by blast
  moreover have "\<And>a. getCachedIntervals (?others @ rows) a = (if a = c then rows else getCachedIntervals table a)"
    using getCachedIntervals_replaced [OF ca] .
  ultimately have "\<forall>a. set (getCachedIntervals (?others @ rows) a) = set (getCachedIntervals table a)"
    by simp
  with res show ?thesis by blast
qed

text \<open>
  C4.  On a table with well-formed rows: inserting a well-formed interval whose blocks
  are all covered by the rows of its contract (rows pairwise apart), with the timestamp
  of the row that ends where it ends if there is one, leaves the set of rows of every
  contract unchanged; and inserting any well-formed interval a second time leaves the
  set of rows of every contract as the first insert left it.
\<close>

theorem covered_insert_is_noop:
  assumes "\<forall>r \<in> set table. startBlock r \<le> endBlock r" and "startBlock iv \<le> endBlock iv"
  shows "(apart (getCachedIntervals table (contractAddress iv))
          \<and> (\<forall>n. startBlock iv \<le> n \<and> n \<le> endBlock iv
                \<longrightarrow> (\<exists>r \<in> set (getCachedIntervals table (contractAddress iv)).
                       startBlock r \<le> n \<and> n \<le> endBlock r))
          \<and> (\<forall>r \<in> set (getCachedIntervals table (contractAddress iv)).
                endBlock r = endBlock iv \<longrightarrow> endBlockTimestamp r = endBlockTimestamp iv)
        \<longrightarrow> (\<exists>table'. insertCachedInterval table iv = Inr table'
               \<and> (\<forall>a. set (getCachedIntervals table' a) = set (getCachedIntervals table a))))
     \<and> (\<exists>once twice. insertCachedInterval table iv = Inr once
           \<and> insertCachedInterval once iv = Inr twice
           \<and> (\<forall>a. set (getCachedIntervals twice a) = set (getCachedIntervals once a)))"
proof (intro conjI impI)
  assume H: "apart (getCachedIntervals table (contractAddress iv))
          \<and> (\<forall>n. startBlock iv \<le> n \<and> n \<le> endBlock iv
                \<longrightarrow> (\<exists>r \<in> set (getCachedIntervals table (contractAddress iv)).
                       startBlock r \<le> n \<and> n \<le> endBlock r))
          \<and> (\<forall>r \<in> set (getCachedIntervals table (contractAddress iv)).
                endBlock r = endBlock iv \<longrightarrow> endBlockTimestamp r = endBlockTimestamp iv)"
  note a = H [THEN conjunct1] and c = H [THEN conjunct2, THEN conjunct1]
    and m = H [THEN conjunct2, THEN conjunct2]
  show "\<exists>table'. insertCachedInterval table iv = Inr table'
               \<and> (\<forall>a. set (getCachedIntervals table' a) = set (getCachedIntervals table a))"
    by (rule insertCachedInterval_covered [OF assms a c m])
next
  from insertCachedInterval_step [OF assms] obtain once where
    S: "insertCachedInterval table iv = Inr once
      \<and> (\<forall>r \<in> set once. startBlock r \<le> endBlock r)
      \<and> apart (getCachedIntervals once (contractAddress iv))
      \<and> (\<forall>a. a \<noteq> contractAddress iv \<longrightarrow> getCachedIntervals once a = getCachedIntervals table a)
      \<and> (\<forall>r \<in> set once. r \<in> set table
            \<or> (\<exists>old \<in> set (iv # table). contractAddress old = contractAddress r
                  \<and> endBlock old = endBlock r \<and> endBlockTimestamp old = endBlockTimestamp r))
      \<and> (\<forall>n. startBlock iv \<le> n \<and> n \<le> endBlock iv
            \<longrightarrow> (\<exists>r \<in> set (getCachedIntervals once (contractAddress iv)). startBlock r \<le> n \<and> n \<le> endBlock r))
      \<and> (\<forall>r \<in> set (getCachedIntervals once (contractAddress iv)). endBlock r = endBlock iv
            \<longrightarrow> endBlockTimestamp r = endBlockTimestamp iv)" ..
  note o = S [THEN conjunct1]
    and w = S [THEN conjunct2, THEN conjunct1]
    and a = S [THEN conjunct2, THEN conjunct2, THEN conjunct1]
    and c = S [THEN conjunct2, THEN conjunct2, THEN conjunct2, THEN conjunct2, THEN conjunct2, THEN conjunct1]
    and m = S [THEN conjunct2, THEN conjunct2, THEN conjunct2, THEN conjunct2, THEN conjunct2, THEN conjunct2]
  from insertCachedInterval_covered [OF w assms(2) a c m] obtain twice where
    T: "insertCachedInterval once iv = Inr twice
      \<and> (\<forall>a. set (getCachedIntervals twice a) = set (getCachedIntervals once a))" ..
  from o T show "\<exists>once twice. insertCachedInterval table iv = Inr once
           \<and> insertCachedInterval once iv = Inr twice
           \<and> (\<forall>a. set (getCachedIntervals twice a) = set (getCachedIntervals once a))"
    by (intro exI conjI) (erule conjunct1 conjunct2 | assumption)+
qed


theorem covered_insert_is_noop_witness:
  "list_all (\<lambda>r. startBlock r \<le> endBlock r)
      [\<lparr>contractAddress = ''C'', startBlock = 10, endBlock = 50, endBlockTimestamp = 1050\<rparr>]
   \<and> apart (getCachedIntervals
         [\<lparr>contractAddress = ''C'', startBlock = 10, endBlock = 50, endBlockTimestamp = 1050\<rparr>] ''C'')
   \<and> (\<exists>table'. insertCachedInterval
          [\<lparr>contractAddress = ''C'', startBlock = 10, endBlock = 50, endBlockTimestamp = 1050\<rparr>]
          \<lparr>contractAddress = ''C'', startBlock = 20, endBlock = 50, endBlockTimestamp = 1050\<rparr> = Inr table'
        \<and> (\<forall>a. set (getCachedIntervals table' a) = set (getCachedIntervals
             [\<lparr>contractAddress = ''C'', startBlock = 10, endBlock = 50, endBlockTimestamp = 1050\<rparr>] a)))
   \<and> insertCachedInterval
          [\<lparr>contractAddress = ''C'', startBlock = 10, endBlock = 50, endBlockTimestamp = 1050\<rparr>]
          \<lparr>contractAddress = ''C'', startBlock = 20, endBlock = 50, endBlockTimestamp = 1050\<rparr>
       = Inr [\<lparr>contractAddress = ''C'', startBlock = 10, endBlock = 50, endBlockTimestamp = 1050\<rparr>]"
proof -
  let ?table = "[\<lparr>contractAddress = ''C'', startBlock = 10, endBlock = 50, endBlockTimestamp = 1050\<rparr>]"
  let ?iv = "\<lparr>contractAddress = ''C'', startBlock = 20, endBlock = 50, endBlockTimestamp = 1050\<rparr>"
  have h1: "\<forall>r \<in> set ?table. startBlock r \<le> endBlock r" by simp
  have h2: "startBlock ?iv \<le> endBlock ?iv" by simp
  have h3: "apart (getCachedIntervals ?table ''C'')" by (simp add: getCachedIntervals_def)
  have h4: "\<forall>n. 20 \<le> n \<and> n \<le> 50 \<longrightarrow>
         (\<exists>r \<in> set (getCachedIntervals ?table ''C''). startBlock r \<le> n \<and> n \<le> endBlock r)"
    by (simp add: getCachedIntervals_def)
  have h5: "\<forall>r \<in> set (getCachedIntervals ?table ''C''). endBlock r = 50 \<longrightarrow> endBlockTimestamp r = 1050"
    by (simp add: getCachedIntervals_def)
  have c1: "\<exists>table'. insertCachedInterval ?table ?iv = Inr table'
        \<and> (\<forall>a. set (getCachedIntervals table' a) = set (getCachedIntervals ?table a))"
    using covered_insert_is_noop [OF h1 h2, THEN conjunct1] h3 h4 h5 by simp
  have c2: "insertCachedInterval ?table ?iv = Inr ?table"
    by (simp add: insertCachedInterval_def insertCachedIntervalWith_def merge_intervals_def
        touching_def combine_def)
  have h1': "list_all (\<lambda>r. startBlock r \<le> endBlock r) ?table" by simp
  from h1' h3 c1 c2 show ?thesis by (intro conjI)
qed
subsection \<open>Logs and blocks\<close>

lemma logs_after_insertBlock:
  "\<forall>l \<in> set (logsTable (insertBlock store block)).
      blockHash l = hash block \<longrightarrow> blockTimestamp l = Some (timestamp block)"
  by (auto simp: insertBlock_def updateBlockTimestamp_def)

lemma blockHash_foldl_insertLog:
  "blockHash ` set (foldl insertLog table ls) \<subseteq> blockHash ` set table \<union> blockHash ` set ls"
proof (induction ls arbitrary: table)
  case Nil
  show ?case by simp
next
  case (Cons l ls)
  have "blockHash ` set (insertLog table l) \<subseteq> blockHash ` set table \<union> {blockHash l}"
    by (auto simp: insertLog_def)
  with Cons [of "insertLog table l"] show ?case by auto
qed

lemma blockHash_updateBlockTimestamp:
  "blockHash ` set (updateBlockTimestamp table h t) = blockHash ` set table"
proof -
  have "map blockHash (updateBlockTimestamp table h t) = map blockHash table"
    by (simp add: updateBlockTimestamp_def)
  then have "set (map blockHash (updateBlockTimestamp table h t)) = set (map blockHash table)"
    by simp
  then show ?thesis by (simp only: set_map)
qed

lemma hash_insertBlockRow:
  "hash ` set (insertBlockRow table b) = insert (hash b) (hash ` set table)"
proof (cases "\<exists>row \<in> set table. hash row = hash b")
  case True
  then have "hash b \<in> hash ` set table" by (metis imageI)
  with True show ?thesis by (auto simp: insertBlockRow_def)
next
  case False
  then show ?thesis by (simp add: insertBlockRow_def)
qed

lemma insertRealtimeBlock_tables:
  "blocksTable (insertRealtimeBlock store (b, txs, ls)) = insertBlockRow (blocksTable store) b"
  "logsTable (insertRealtimeBlock store (b, txs, ls))
     = updateBlockTimestamp (foldl insertLog (logsTable store) ls) (hash b) (timestamp b)"
  by (simp_all add: insertRealtimeBlock_def insertTransactions_def insertLogs_def Let_def)

lemma logsHaveBlocks_step:
  assumes "logsHaveBlocks store" and "\<forall>l \<in> set ls. blockHash l = hash b"
  shows "logsHaveBlocks (insertRealtimeBlock store (b, txs, ls))"
proof -
  have 1: "blockHash ` set (logsTable (insertRealtimeBlock store (b, txs, ls)))
      \<subseteq> blockHash ` set (logsTable store) \<union> blockHash ` set ls"
    using blockHash_foldl_insertLog [of "logsTable store" ls]
    by (simp add: insertRealtimeBlock_tables blockHash_updateBlockTimestamp)
  have 2: "blockHash ` set ls \<subseteq> {hash b}" using assms(2) by auto
  have 3: "blockHash ` set (logsTable store) \<subseteq> hash ` set (blocksTable store)"
  proof
    fix h assume "h \<in> blockHash ` set (logsTable store)"
    then obtain l where "l \<in> set (logsTable store)" "h = blockHash l" by blast
    with assms(1) obtain blk where "blk \<in> set (blocksTable store)" "hash blk = h"
      unfolding logsHaveBlocks_def by blast
    then show "h \<in> hash ` set (blocksTable store)" by blast
  qed
  have 4: "hash ` set (blocksTable (insertRealtimeBlock store (b, txs, ls)))
      = insert (hash b) (hash ` set (blocksTable store))"
    by (simp add: insertRealtimeBlock_tables hash_insertBlockRow)
  from 1 2 3 have 5: "blockHash ` set (logsTable (insertRealtimeBlock store (b, txs, ls)))
      \<subseteq> insert (hash b) (hash ` set (blocksTable store))" by blast
  show ?thesis
    unfolding logsHaveBlocks_def
  proof
    fix l assume "l \<in> set (logsTable (insertRealtimeBlock store (b, txs, ls)))"
    then have "blockHash l \<in> blockHash ` set (logsTable (insertRealtimeBlock store (b, txs, ls)))"
      by (rule imageI)
    with 5 4 have "blockHash l \<in> hash ` set (blocksTable (insertRealtimeBlock store (b, txs, ls)))"
      by blast
    then show "\<exists>blk \<in> set (blocksTable (insertRealtimeBlock store (b, txs, ls))). hash blk = blockHash l"
      by (metis imageE)
  qed
qed

lemma logsHaveBlocks_calls:
  "logsHaveBlocks store \<Longrightarrow> \<forall>(b, txs, ls) \<in> set calls. \<forall>l \<in> set ls. blockHash l = hash b
     \<Longrightarrow> logsHaveBlocks (foldl insertRealtimeBlock store calls)"
proof (induction calls arbitrary: store)
  case Nil
  then show ?case by simp
next
  case (Cons c calls)
  obtain b txs ls where c: "c = (b, txs, ls)" by (cases c)
  with Cons.prems have "logsHaveBlocks (insertRealtimeBlock store c)"
    using logsHaveBlocks_step [of store ls b txs] by simp
  with Cons show ?case by simp
qed

text \<open>
  C9.  After \<open>insertBlock\<close>, following any \<open>insertLogs\<close> calls on any store, every
  stored log with the \<open>blockHash\<close> of the inserted block has its timestamp as
  \<open>blockTimestamp\<close>.  And after any sequence of realtime inserts on the empty store,
  each with the logs of the block it inserts, every stored log has a stored block with
  \<open>hash = log.blockHash\<close>.
\<close>

theorem logs_carry_block_timestamp:
  "(\<forall>l \<in> set (logsTable (insertBlock (foldl insertLogs store logCalls) block)).
       blockHash l = hash block \<longrightarrow> blockTimestamp l = Some (timestamp block))
   \<and> ((\<forall>(b, txs, ls) \<in> set calls. \<forall>l \<in> set ls. blockHash l = hash b) \<longrightarrow>
        (\<forall>l \<in> set (logsTable (foldl insertRealtimeBlock emptyStore calls)).
           \<exists>b \<in> set (blocksTable (foldl insertRealtimeBlock emptyStore calls)). hash b = blockHash l))"
proof (intro conjI impI)
  show "\<forall>l \<in> set (logsTable (insertBlock (foldl insertLogs store logCalls) block)).
       blockHash l = hash block \<longrightarrow> blockTimestamp l = Some (timestamp block)"
    by (rule logs_after_insertBlock)
next
  assume a: "\<forall>(b, txs, ls) \<in> set calls. \<forall>l \<in> set ls. blockHash l = hash b"
  have "logsHaveBlocks emptyStore" by (simp add: logsHaveBlocks_def emptyStore_def)
  from logsHaveBlocks_calls [OF this a]
  show "\<forall>l \<in> set (logsTable (foldl insertRealtimeBlock emptyStore calls)).
           \<exists>b \<in> set (blocksTable (foldl insertRealtimeBlock emptyStore calls)). hash b = blockHash l"
    by (simp add: logsHaveBlocks_def)
qed

lemma example_insertBlock:
  "logsTable (insertBlock (foldl insertLogs emptyStore [[exampleLog]]) exampleBlock)
     = [exampleLog\<lparr>blockTimestamp := Some 1700\<rparr>]"
  by (simp add: insertBlock_def insertLogs_def insertLog_def updateBlockTimestamp_def
      emptyStore_def exampleLog_def exampleBlock_def)

lemma example_insertRealtimeBlock:
  "foldl insertRealtimeBlock emptyStore [(exampleBlock, [], [exampleLog])]
     = \<lparr>logsTable = [exampleLog\<lparr>blockTimestamp := Some 1700\<rparr>], blocksTable = [exampleBlock],
        transactionsTable = []\<rparr>"
  by (simp add: insertRealtimeBlock_def insertLogs_def insertLog_def insertTransactions_def
      updateBlockTimestamp_def insertBlockRow_def emptyStore_def exampleLog_def exampleBlock_def)

theorem logs_carry_block_timestamp_witness:
  "logsTable (insertBlock (foldl insertLogs emptyStore [[exampleLog]]) exampleBlock)
     = [exampleLog\<lparr>blockTimestamp := Some 1700\<rparr>]
   \<and> blockHash exampleLog = hash exampleBlock
   \<and> list_all (\<lambda>l. blockHash l = hash exampleBlock \<and> blockTimestamp l = Some (timestamp exampleBlock))
        (logsTable (insertBlock (foldl insertLogs emptyStore [[exampleLog]]) exampleBlock))
   \<and> list_all (\<lambda>l. list_ex (\<lambda>b. hash b = blockHash l)
          (blocksTable (foldl insertRealtimeBlock emptyStore [(exampleBlock, [], [exampleLog])])))
        (logsTable (foldl insertRealtimeBlock emptyStore [(exampleBlock, [], [exampleLog])]))
   \<and> logsTable (foldl insertRealtimeBlock emptyStore [(exampleBlock, [], [exampleLog])])
       = [exampleLog\<lparr>blockTimestamp := Some 1700\<rparr>]"
proof -
  let ?calls = "[(exampleBlock, [], [exampleLog])]"
  note inst = logs_carry_block_timestamp [where store = emptyStore and logCalls = "[[exampleLog]]"
      and block = exampleBlock and calls = ?calls]
  have h: "\<forall>(b, txs, ls) \<in> set ?calls. \<forall>l \<in> set ls. blockHash l = hash b"
    by (simp add: exampleLog_def exampleBlock_def)
  have e: "blockHash exampleLog = hash exampleBlock" by (simp add: exampleLog_def exampleBlock_def)
  from inst have 1: "list_all (\<lambda>l. blockHash l = hash exampleBlock \<longrightarrow> blockTimestamp l = Some (timestamp exampleBlock))
        (logsTable (insertBlock (foldl insertLogs emptyStore [[exampleLog]]) exampleBlock))"
    unfolding list_all_iff by (rule conjunct1)
  then have 1: "list_all (\<lambda>l. blockHash l = hash exampleBlock \<and> blockTimestamp l = Some (timestamp exampleBlock))
        (logsTable (insertBlock (foldl insertLogs emptyStore [[exampleLog]]) exampleBlock))"
    using e unfolding example_insertBlock by (simp add: exampleLog_def exampleBlock_def)
  from inst h have 2: "list_all (\<lambda>l. list_ex (\<lambda>b. hash b = blockHash l)
          (blocksTable (foldl insertRealtimeBlock emptyStore ?calls)))
        (logsTable (foldl insertRealtimeBlock emptyStore ?calls))"
    unfolding list_all_iff list_ex_iff by blast
  have 3: "logsTable (foldl insertRealtimeBlock emptyStore ?calls) = [exampleLog\<lparr>blockTimestamp := Some 1700\<rparr>]"
    by (simp only: example_insertRealtimeBlock Store.simps)
  from example_insertBlock e 1 2 3 show ?thesis by (intro conjI)
qed
section \<open>Properties of the realtime sync service\<close>

lemma effects_effect: "effects (effect e s) = effects s @ [e]"
  by (simp add: effect_def)

lemma start_early_iff:
  "(start env s = (None, s))
     = (\<forall>f \<in> set (logFilters env). \<exists>e. lf_endBlock f = Some e \<and> e < finalizedBlockNumber s)"
proof -
  let ?every = "list_all (\<lambda>endBlock. case endBlock of None \<Rightarrow> False | Some e \<Rightarrow> e < finalizedBlockNumber s)
         (map lf_endBlock (logFilters env))"
  have ev: "?every = (\<forall>f \<in> set (logFilters env). \<exists>e. lf_endBlock f = Some e \<and> e < finalizedBlockNumber s)"
    by (auto simp: list_all_iff split: option.splits)
  show ?thesis
  proof (cases ?every)
    case True
    then have "start env s = (None, s)" by (simp add: start_def)
    with True ev show ?thesis by simp
  next
    case False
    then have "effects (snd (start env s)) \<noteq> effects s \<or> fst (start env s) \<noteq> None"
      by (auto simp: start_def Let_def effects_effect split: sum.splits option.splits)
    then have "start env s \<noteq> (None, s)" by auto
    with False ev show ?thesis by simp
  qed
qed

lemma start_proceeds:
  assumes "\<not> (\<forall>f \<in> set (logFilters env). \<exists>e. lf_endBlock f = Some e \<and> e < finalizedBlockNumber s)"
    and "queue s \<noteq> []"
    and "eth_getBlockByNumber env (BlockNumber (finalizedBlockNumber s)) False = Inr (Some finalizedBlock)"
  shows "start env s =
     (None, s\<lparr>blocks := blocks s @ [rpcBlockToLightBlock finalizedBlock],
              queueStarted := True, polling := True,
              effects := effects s @ [Request (GetBlockByNumber (BlockNumber (finalizedBlockNumber s)) False)]\<rparr>)"
proof -
  have "\<not> list_all (\<lambda>endBlock. case endBlock of None \<Rightarrow> False | Some e \<Rightarrow> e < finalizedBlockNumber s)
         (map lf_endBlock (logFilters env))"
    using assms(1) by (auto simp: list_all_iff split: option.splits)
  with assms(2,3) show ?thesis by (simp add: start_def Let_def effect_def)
qed

lemma insertMatchedLogs_frame:
  "\<exists>pre. snd (insertMatchedLogs env s block) = s\<lparr>effects := effects s @ pre\<rparr>"
proof (cases "isMatchedLogInBloomFilter env (logsBloom block) (logFilters env)")
  case False
  then have "snd (insertMatchedLogs env s block) = s\<lparr>effects := effects s @ []\<rparr>"
    by (simp add: insertMatchedLogs_def)
  then show ?thesis by (rule exI)
next
  case True
  let ?h = "hash (rpcBlockToLightBlock block)"
  show ?thesis
  proof (cases "eth_getLogs env ?h")
    case (Inl err)
    with True have "snd (insertMatchedLogs env s block) = s\<lparr>effects := effects s @ [Request (GetLogs ?h)]\<rparr>"
      by (simp add: insertMatchedLogs_def effect_def)
    then show ?thesis by (rule exI)
  next
    case (Inr fetched)
    show ?thesis
    proof (cases "filterLogs env fetched (logFilters env) = []")
      case e: True
      with True Inr have "snd (insertMatchedLogs env s block) = s\<lparr>effects := effects s @ [Request (GetLogs ?h)]\<rparr>"
        by (simp add: insertMatchedLogs_def effect_def)
      then show ?thesis by (rule exI)
    next
      case ne: False
      let ?call = "InsertRealtimeBlock (chainId env) block
          (filter (\<lambda>t. tx_hash t \<in> set (map transactionHash (filterLogs env fetched (logFilters env))))
             (transactions block))
          (filterLogs env fetched (logFilters env))"
      from True Inr ne
      have "snd (insertMatchedLogs env s block)
          = s\<lparr>effects := effects s @ [Request (GetLogs ?h), Store ?call]\<rparr>"
        by (simp add: insertMatchedLogs_def effect_def Let_def)
      then show ?thesis by (rule exI)
    qed
  qed
qed

lemma insertMatchedLogs_false_positive:
  assumes "isMatchedLogInBloomFilter env (logsBloom block) (logFilters env)"
    and "eth_getLogs env (hash block) = Inr fetched"
    and "filterLogs env fetched (logFilters env) = []"
  shows "insertMatchedLogs env s block = (None, effect (Request (GetLogs (hash block))) s)"
  using assms by (simp add: insertMatchedLogs_def rpcBlockToLightBlock_def)

lemma advanceFinality_cases:
  fixes env s
  defines "target \<equiv> finalizedBlockNumber s + finalityBlockCount env"
  shows "(find (\<lambda>block. number block = target) (blocks s) = None
            \<and> advanceFinality env s = (Some TypeError, s))
       \<or> (\<exists>F. find (\<lambda>block. number block = target) (blocks s) = Some F \<and> number F = target
            \<and> (let call = InsertLogFilterCachedRanges (map lf_key (logFilters env))
                             (finalizedBlockNumber s + 1) (number F) (timestamp F);
                    s2 = s\<lparr>blocks := filter (\<lambda>block. number block \<ge> number F) (blocks s),
                           effects := effects s @ [Store call]\<rparr>
                in (\<exists>err. eventStore env call = Some err \<and> advanceFinality env s = (Some err, s2))
                 \<or> (eventStore env call = None
                     \<and> advanceFinality env s =
                        (None, s2\<lparr>finalizedBlockNumber := number F,
                                  effects := effects s @ [Store call, Emit (finalityCheckpoint (timestamp F))]\<rparr>))))"
proof (cases "find (\<lambda>block. number block = target) (blocks s)")
  case None
  then show ?thesis by (simp add: advanceFinality_def target_def)
next
  case (Some F)
  then have nF: "number F = target" by (auto simp: find_Some_iff)
  show ?thesis
  proof (cases "eventStore env (InsertLogFilterCachedRanges (map lf_key (logFilters env))
                             (finalizedBlockNumber s + 1) (number F) (timestamp F))")
    case None
    with Some nF show ?thesis
      unfolding target_def by (simp add: advanceFinality_def Let_def effect_def)
  next
    case (Some err)
    with \<open>find (\<lambda>block. number block = target) (blocks s) = Some F\<close> nF show ?thesis
      unfolding target_def by (simp add: advanceFinality_def Let_def effect_def)
  qed
qed


lemma last_filter_snoc: "P x \<Longrightarrow> filter P (xs @ [x]) \<noteq> [] \<and> last (filter P (xs @ [x])) = x"
  by simp

lemma acceptHead_shape:
  "\<exists>out s' post. acceptHead env s1 block = (out, s')
      \<and> effects s' = effects s1 @ Emit (realtimeCheckpoint (timestamp block)) # post
      \<and> (\<forall>c b txs ls. Store (InsertRealtimeBlock c b txs ls) \<notin> set post)
      \<and> blocks s' \<noteq> [] \<and> last (blocks s') = rpcBlockToLightBlock block
      \<and> queue s' = queue s1"
proof -
  let ?nb = "rpcBlockToLightBlock block"
  let ?s2 = "s1\<lparr>effects := effects s1 @ [Emit (realtimeCheckpoint (timestamp block))],
                blocks := blocks s1 @ [?nb]\<rparr>"
  let ?target = "finalizedBlockNumber ?s2 + finalityBlockCount env"
  have nb: "number ?nb = number block" by (simp add: rpcBlockToLightBlock_def)
  show ?thesis
  proof (cases "number block > finalizedBlockNumber s1 + 2 * finalityBlockCount env")
    case False
    then have "acceptHead env s1 block = (None, ?s2)"
      by (simp add: acceptHead_def Let_def effect_def nb)
    then show ?thesis by simp
  next
    case True
    then have a: "acceptHead env s1 block = advanceFinality env ?s2"
      by (simp add: acceptHead_def Let_def effect_def nb)
    from advanceFinality_cases [where env = env and s = ?s2]
    consider (none) "advanceFinality env ?s2 = (Some TypeError, ?s2)"
      | (found) F where "find (\<lambda>block. number block = ?target) (blocks ?s2) = Some F"
          "number F = ?target"
          "let call = InsertLogFilterCachedRanges (map lf_key (logFilters env))
                             (finalizedBlockNumber ?s2 + 1) (number F) (timestamp F);
               s2 = ?s2\<lparr>blocks := filter (\<lambda>block. number block \<ge> number F) (blocks ?s2),
                           effects := effects ?s2 @ [Store call]\<rparr>
           in (\<exists>err. eventStore env call = Some err \<and> advanceFinality env ?s2 = (Some err, s2))
                 \<or> (eventStore env call = None
                     \<and> advanceFinality env ?s2 =
                        (None, s2\<lparr>finalizedBlockNumber := number F,
                                  effects := effects ?s2 @ [Store call, Emit (finalityCheckpoint (timestamp F))]\<rparr>))"
      by blast
    then show ?thesis
    proof cases
      case none
      with a show ?thesis by simp
    next
      case found
      let ?call = "InsertLogFilterCachedRanges (map lf_key (logFilters env))
                             (finalizedBlockNumber ?s2 + 1) (number F) (timestamp F)"
      from found(2) True have keep: "number F \<le> number ?nb" by (simp add: nb)
      note lf = last_filter_snoc [of "\<lambda>b. number F \<le> number b" ?nb "blocks s1", OF keep]
      from found(3) consider
        (err) err where "advanceFinality env ?s2 = (Some err,
            ?s2\<lparr>blocks := filter (\<lambda>block. number block \<ge> number F) (blocks ?s2),
                           effects := effects ?s2 @ [Store ?call]\<rparr>)"
        | (ok) "advanceFinality env ?s2 = (None,
            ?s2\<lparr>blocks := filter (\<lambda>block. number block \<ge> number F) (blocks ?s2),
                 finalizedBlockNumber := number F,
                 effects := effects ?s2 @ [Store ?call, Emit (finalityCheckpoint (timestamp F))]\<rparr>)"
        unfolding Let_def by auto
      then show ?thesis
      proof cases
        case err
        with a lf show ?thesis by simp
      next
        case ok
        with a lf show ?thesis by simp
      qed
    qed
  qed
qed

lemma light_simps:
  "hash (rpcBlockToLightBlock b) = hash b"
  "number (rpcBlockToLightBlock b) = number b"
  "parentHash (rpcBlockToLightBlock b) = parentHash b"
  "timestamp (rpcBlockToLightBlock b) = timestamp b"
  by (simp_all add: rpcBlockToLightBlock_def)

lemma case_nonempty: "xs \<noteq> [] \<Longrightarrow> (case xs of [] \<Rightarrow> a | x # ys \<Rightarrow> b) = b"
  by (cases xs) simp_all

lemma acceptHead_chain:
  "blocks (snd (acceptHead env s1 block)) =
     (if finalizedBlockNumber s1 + 2 * finalityBlockCount env < number block
      then (case find (\<lambda>b. number b = finalizedBlockNumber s1 + finalityBlockCount env)
                   (blocks s1 @ [rpcBlockToLightBlock block]) of
              None \<Rightarrow> blocks s1 @ [rpcBlockToLightBlock block]
            | Some F \<Rightarrow> filter (\<lambda>b. number F \<le> number b) (blocks s1 @ [rpcBlockToLightBlock block]))
      else blocks s1 @ [rpcBlockToLightBlock block])"
proof (cases "finalizedBlockNumber s1 + 2 * finalityBlockCount env < number block")
  case False
  then show ?thesis by (simp add: acceptHead_def Let_def effect_def light_simps)
next
  case True
  let ?nb = "rpcBlockToLightBlock block"
  let ?s2 = "s1\<lparr>effects := effects s1 @ [Emit (realtimeCheckpoint (timestamp block))],
                blocks := blocks s1 @ [?nb]\<rparr>"
  from True have a: "acceptHead env s1 block = advanceFinality env ?s2"
    by (simp add: acceptHead_def Let_def effect_def light_simps)
  show ?thesis
  proof (cases "find (\<lambda>b. number b = finalizedBlockNumber s1 + finalityBlockCount env) (blocks s1 @ [?nb])")
    case None
    then have "advanceFinality env ?s2 = (Some TypeError, ?s2)"
      by (simp add: advanceFinality_def)
    with a True None show ?thesis by simp
  next
    case (Some F)
    then have "blocks (snd (advanceFinality env ?s2)) = filter (\<lambda>b. number F \<le> number b) (blocks s1 @ [?nb])"
      by (simp add: advanceFinality_def Let_def effect_def split: option.splits)
    with a True Some show ?thesis by simp
  qed
qed

lemma worker_newHead:
  assumes "blocks s \<noteq> []"
    and "find (\<lambda>b. hash b = hash block) (blocks s) = None"
    and "number block = number (last (blocks s)) + 1"
    and "parentHash block = hash (last (blocks s))"
  shows "blockTaskWorker env s block = Some (newHead env s block)"
  by (simp add: blockTaskWorker_def case_nonempty Let_def light_simps assms)

lemma acceptHead_advances:
  assumes "number block > finalizedBlockNumber s1 + 2 * finalityBlockCount env"
    and "find (\<lambda>b. number b = finalizedBlockNumber s1 + finalityBlockCount env)
           (blocks s1 @ [rpcBlockToLightBlock block]) = Some F"
    and "eventStore env (InsertLogFilterCachedRanges (map lf_key (logFilters env))
           (finalizedBlockNumber s1 + 1) (number F) (timestamp F)) = None"
  shows "acceptHead env s1 block =
     (None, s1\<lparr>blocks := filter (\<lambda>b. number b \<ge> number F) (blocks s1 @ [rpcBlockToLightBlock block]),
               finalizedBlockNumber := number F,
               effects := effects s1 @
                 [Emit (realtimeCheckpoint (timestamp block)),
                  Store (InsertLogFilterCachedRanges (map lf_key (logFilters env))
                    (finalizedBlockNumber s1 + 1) (number F) (timestamp F)),
                  Emit (finalityCheckpoint (timestamp F))]\<rparr>)"
proof -
  have nb: "number (rpcBlockToLightBlock block) = number block" by (simp add: rpcBlockToLightBlock_def)
  show ?thesis
    using assms by (simp add: acceptHead_def advanceFinality_def Let_def effect_def nb)
qed


text \<open>
  C6 (as amended).  \<open>start()\<close> returns without seeding the local chain, starting the
  queue or polling (it returns normally and leaves the service as it was, with no
  request sent) exactly when every configured log filter has a defined \<open>endBlock\<close> that
  is strictly below \<open>finalizedBlockNumber\<close>.  Otherwise, when \<open>setup()\<close> has put the
  latest block in the queue and the request for the finalized block returns a block,
  \<open>start()\<close> seeds the local chain with its light form, starts the queue and begins to
  poll.
\<close>

theorem start_returns_early_iff:
  "(start env s = (None, s))
     = (\<forall>f \<in> set (logFilters env). \<exists>e. lf_endBlock f = Some e \<and> e < finalizedBlockNumber s)
   \<and> (\<not> (\<forall>f \<in> set (logFilters env). \<exists>e. lf_endBlock f = Some e \<and> e < finalizedBlockNumber s)
        \<and> queue s \<noteq> []
        \<and> eth_getBlockByNumber env (BlockNumber (finalizedBlockNumber s)) False = Inr (Some finalizedBlock)
      \<longrightarrow> start env s =
           (None, s\<lparr>blocks := blocks s @ [rpcBlockToLightBlock finalizedBlock],
                    queueStarted := True, polling := True,
                    effects := effects s
                      @ [Request (GetBlockByNumber (BlockNumber (finalizedBlockNumber s)) False)]\<rparr>))"
proof (intro conjI impI)
  show "(start env s = (None, s))
     = (\<forall>f \<in> set (logFilters env). \<exists>e. lf_endBlock f = Some e \<and> e < finalizedBlockNumber s)"
    by (rule start_early_iff)
next
  assume a: "\<not> (\<forall>f \<in> set (logFilters env). \<exists>e. lf_endBlock f = Some e \<and> e < finalizedBlockNumber s)
        \<and> queue s \<noteq> []
        \<and> eth_getBlockByNumber env (BlockNumber (finalizedBlockNumber s)) False = Inr (Some finalizedBlock)"
  show "start env s =
           (None, s\<lparr>blocks := blocks s @ [rpcBlockToLightBlock finalizedBlock],
                    queueStarted := True, polling := True,
                    effects := effects s
                      @ [Request (GetBlockByNumber (BlockNumber (finalizedBlockNumber s)) False)]\<rparr>)"
    by (rule start_proceeds [OF a [THEN conjunct1] a [THEN conjunct2, THEN conjunct1]
          a [THEN conjunct2, THEN conjunct2]])
qed

lemma exampleSetup_start:
  "start exampleEnv exampleSetup =
     (None, exampleSetup\<lparr>blocks := [rpcBlockToLightBlock (rpcBlock ''H98'' 98 ''H97'')],
              queueStarted := True, polling := True,
              effects := [Request (GetBlockByNumber (BlockNumber 98) False)]\<rparr>)"
  by (simp add: start_def exampleEnv_def exampleSetup_def effect_def)

theorem start_returns_early_iff_witness:
  "map lf_endBlock (logFilters exampleEnv) = [Some 98]
   \<and> start exampleEnv (exampleSetup\<lparr>finalizedBlockNumber := 99\<rparr>)
       = (None, exampleSetup\<lparr>finalizedBlockNumber := 99\<rparr>)
   \<and> queue exampleSetup \<noteq> []
   \<and> eth_getBlockByNumber exampleEnv (BlockNumber (finalizedBlockNumber exampleSetup)) False
       = Inr (Some (rpcBlock ''H98'' 98 ''H97''))
   \<and> start exampleEnv exampleSetup =
       (None, exampleSetup\<lparr>blocks := [rpcBlockToLightBlock (rpcBlock ''H98'' 98 ''H97'')],
              queueStarted := True, polling := True,
              effects := [Request (GetBlockByNumber (BlockNumber 98) False)]\<rparr>)"
proof -
  note early = start_returns_early_iff [where env = exampleEnv
      and s = "exampleSetup\<lparr>finalizedBlockNumber := 99\<rparr>", THEN conjunct1]
  note go = start_returns_early_iff [where env = exampleEnv and s = exampleSetup
      and finalizedBlock = "rpcBlock ''H98'' 98 ''H97''", THEN conjunct2]
  have f: "map lf_endBlock (logFilters exampleEnv) = [Some 98]" by (simp add: exampleEnv_def)
  have 1: "start exampleEnv (exampleSetup\<lparr>finalizedBlockNumber := 99\<rparr>)
       = (None, exampleSetup\<lparr>finalizedBlockNumber := 99\<rparr>)"
    unfolding early by (simp add: exampleEnv_def)
  have q: "queue exampleSetup \<noteq> []" by (simp add: exampleSetup_def)
  have r: "eth_getBlockByNumber exampleEnv (BlockNumber (finalizedBlockNumber exampleSetup)) False
       = Inr (Some (rpcBlock ''H98'' 98 ''H97''))"
    by (simp add: exampleEnv_def exampleSetup_def)
  have n: "\<not> (\<forall>f \<in> set (logFilters exampleEnv). \<exists>e. lf_endBlock f = Some e
       \<and> e < finalizedBlockNumber exampleSetup)"
    by (simp add: exampleEnv_def exampleSetup_def)
  from go n q r have 2: "start exampleEnv exampleSetup =
       (None, exampleSetup\<lparr>blocks := blocks exampleSetup @ [rpcBlockToLightBlock (rpcBlock ''H98'' 98 ''H97'')],
              queueStarted := True, polling := True,
              effects := effects exampleSetup
                @ [Request (GetBlockByNumber (BlockNumber (finalizedBlockNumber exampleSetup)) False)]\<rparr>)"
    by blast
  have 3: "start exampleEnv exampleSetup =
       (None, exampleSetup\<lparr>blocks := [rpcBlockToLightBlock (rpcBlock ''H98'' 98 ''H97'')],
              queueStarted := True, polling := True,
              effects := [Request (GetBlockByNumber (BlockNumber 98) False)]\<rparr>)"
    unfolding 2 by (simp add: exampleSetup_def)
  from f 1 q r 3 show ?thesis by (intro conjI)
qed

text \<open>
  C6 as stated fails at a filter whose \<open>endBlock\<close> equals \<open>finalizedBlockNumber\<close>:
  the one filter has \<open>endBlock = 98\<close>, the finalized block is 98, and \<open>start()\<close> seeds
  the local chain, starts the queue and polls.
\<close>

theorem start_at_equal_endBlock_counterexample:
  "map lf_endBlock (logFilters exampleEnv) = [Some 98]
   \<and> finalizedBlockNumber exampleSetup = 98
   \<and> blocks exampleSetup = [] \<and> \<not> queueStarted exampleSetup \<and> \<not> polling exampleSetup
   \<and> blocks (snd (start exampleEnv exampleSetup)) = [rpcBlockToLightBlock (rpcBlock ''H98'' 98 ''H97'')]
   \<and> queueStarted (snd (start exampleEnv exampleSetup))
   \<and> polling (snd (start exampleEnv exampleSetup))"
  unfolding exampleSetup_start by (simp add: exampleEnv_def exampleSetup_def)

text \<open>
  C1.  A new head block \<open>B\<close> (not in the local chain, one above the head and linked to
  it) whose logs are dealt with without an exception, with
  \<open>B.number > finalizedBlockNumber + 2 * finalityBlockCount\<close>, where \<open>F\<close> is the local
  block found with number \<open>finalizedBlockNumber + finalityBlockCount\<close> and the store
  accepts the call: the task returns normally; the local chain is the blocks with number
  \<open>\<ge> F.number\<close> of the chain extended by \<open>B\<close>; after \<open>realtimeCheckpoint\<close> it calls
  \<open>insertLogFilterCachedRanges\<close> with the keys of all filters,
  \<open>startBlock = finalizedBlockNumber + 1\<close>, \<open>endBlock = F.number\<close>,
  \<open>endBlockTimestamp = F.timestamp\<close>, and emits \<open>finalityCheckpoint\<close> with
  \<open>F.timestamp\<close>; \<open>finalizedBlockNumber\<close> is \<open>F.number\<close>.
\<close>

theorem new_head_advances_finality:
  assumes "blocks s \<noteq> []"
    and "find (\<lambda>b. hash b = hash block) (blocks s) = None"
    and "number block = number (last (blocks s)) + 1"
    and "parentHash block = hash (last (blocks s))"
    and "fst (insertMatchedLogs env s block) = None"
    and "number block > finalizedBlockNumber s + 2 * finalityBlockCount env"
    and "find (\<lambda>b. number b = finalizedBlockNumber s + finalityBlockCount env)
           (blocks s @ [rpcBlockToLightBlock block]) = Some F"
    and "eventStore env (InsertLogFilterCachedRanges (map lf_key (logFilters env))
           (finalizedBlockNumber s + 1) (number F) (timestamp F)) = None"
  shows "\<exists>s'. blockTaskWorker env s block = Some (None, s')
      \<and> number F = finalizedBlockNumber s + finalityBlockCount env
      \<and> blocks s' = filter (\<lambda>b. number b \<ge> number F) (blocks s @ [rpcBlockToLightBlock block])
      \<and> finalizedBlockNumber s' = number F
      \<and> effects s' = effects (snd (insertMatchedLogs env s block))
          @ [Emit (realtimeCheckpoint (timestamp block)),
             Store (InsertLogFilterCachedRanges (map lf_key (logFilters env))
               (finalizedBlockNumber s + 1) (number F) (timestamp F)),
             Emit (finalityCheckpoint (timestamp F))]
      \<and> queue s' = queue s"
proof -
  obtain out s1 where i: "insertMatchedLogs env s block = (out, s1)"
    by (cases "insertMatchedLogs env s block")
  with assms(5) have out: "out = None" by simp
  from insertMatchedLogs_frame [of env s block] i obtain pre where
    s1: "s1 = s\<lparr>effects := effects s @ pre\<rparr>" by auto
  have b1: "blocks s1 = blocks s" and f1: "finalizedBlockNumber s1 = finalizedBlockNumber s"
    and q1: "queue s1 = queue s" by (simp_all add: s1)
  have "newHead env s block = acceptHead env s1 block"
    by (simp add: newHead_def i out)
  also have "\<dots> = (None, s1\<lparr>blocks := filter (\<lambda>b. number b \<ge> number F) (blocks s1 @ [rpcBlockToLightBlock block]),
               finalizedBlockNumber := number F,
               effects := effects s1 @
                 [Emit (realtimeCheckpoint (timestamp block)),
                  Store (InsertLogFilterCachedRanges (map lf_key (logFilters env))
                    (finalizedBlockNumber s1 + 1) (number F) (timestamp F)),
                  Emit (finalityCheckpoint (timestamp F))]\<rparr>)"
    using assms(6,7,8) by (intro acceptHead_advances) (simp_all add: b1 f1)
  finally have n: "newHead env s block = (None, s1\<lparr>blocks := filter (\<lambda>b. number b \<ge> number F) (blocks s1 @ [rpcBlockToLightBlock block]),
               finalizedBlockNumber := number F,
               effects := effects s1 @
                 [Emit (realtimeCheckpoint (timestamp block)),
                  Store (InsertLogFilterCachedRanges (map lf_key (logFilters env))
                    (finalizedBlockNumber s1 + 1) (number F) (timestamp F)),
                  Emit (finalityCheckpoint (timestamp F))]\<rparr>)" .
  have nF: "number F = finalizedBlockNumber s + finalityBlockCount env"
    using assms(7) by (auto simp: find_Some_iff)
  from worker_newHead [OF assms(1-4), of env] n nF show ?thesis
    by (simp add: i b1 f1 q1)
qed


theorem new_head_advances_finality_witness:
  "finalizedBlockNumber exampleService + 2 * finalityBlockCount exampleEnv
      < number (rpcBlock ''H101'' 101 ''H100'')
   \<and> (\<exists>s'. blockTaskWorker exampleEnv exampleService (rpcBlock ''H101'' 101 ''H100'') = Some (None, s')
        \<and> map number (blocks s') = [99, 100, 101]
        \<and> finalizedBlockNumber s' = 99
        \<and> effects s' =
            [Request (GetLogs ''H101''), Emit (realtimeCheckpoint 1101),
             Store (InsertLogFilterCachedRanges [''k1''] 99 99 1099),
             Emit (finalityCheckpoint 1099)])"
proof -
  let ?B = "rpcBlock ''H101'' 101 ''H100''"
  let ?F = "rpcBlockToLightBlock (rpcBlock ''H99'' 99 ''H98'')"
  have h1: "blocks exampleService \<noteq> []" by (simp add: exampleService_def)
  have h2: "find (\<lambda>b. hash b = hash ?B) (blocks exampleService) = None"
    by (simp add: exampleService_def rpcBlock_def rpcBlockToLightBlock_def)
  have h3: "number ?B = number (last (blocks exampleService)) + 1"
    by (simp add: exampleService_def rpcBlock_def rpcBlockToLightBlock_def)
  have h4: "parentHash ?B = hash (last (blocks exampleService))"
    by (simp add: exampleService_def rpcBlock_def rpcBlockToLightBlock_def)
  have m: "insertMatchedLogs exampleEnv exampleService ?B
      = (None, exampleService\<lparr>effects := [Request (GetLogs ''H101'')]\<rparr>)"
    by (simp add: insertMatchedLogs_def exampleEnv_def exampleService_def rpcBlock_def
        rpcBlockToLightBlock_def effect_def)
  then have h5: "fst (insertMatchedLogs exampleEnv exampleService ?B) = None" by simp
  have h6: "number ?B > finalizedBlockNumber exampleService + 2 * finalityBlockCount exampleEnv"
    by (simp add: exampleService_def exampleEnv_def rpcBlock_def)
  have h7: "find (\<lambda>b. number b = finalizedBlockNumber exampleService + finalityBlockCount exampleEnv)
           (blocks exampleService @ [rpcBlockToLightBlock ?B]) = Some ?F"
    by (simp add: exampleService_def exampleEnv_def rpcBlock_def rpcBlockToLightBlock_def)
  have h8: "eventStore exampleEnv (InsertLogFilterCachedRanges (map lf_key (logFilters exampleEnv))
           (finalizedBlockNumber exampleService + 1) (number ?F) (timestamp ?F)) = None"
    by (simp add: exampleEnv_def)
  from new_head_advances_finality [OF h1 h2 h3 h4 h5 h6 h7 h8] obtain s' where
    W: "blockTaskWorker exampleEnv exampleService ?B = Some (None, s')
      \<and> number ?F = finalizedBlockNumber exampleService + finalityBlockCount exampleEnv
      \<and> blocks s' = filter (\<lambda>b. number b \<ge> number ?F) (blocks exampleService @ [rpcBlockToLightBlock ?B])
      \<and> finalizedBlockNumber s' = number ?F
      \<and> effects s' = effects (snd (insertMatchedLogs exampleEnv exampleService ?B))
          @ [Emit (realtimeCheckpoint (timestamp ?B)),
             Store (InsertLogFilterCachedRanges (map lf_key (logFilters exampleEnv))
               (finalizedBlockNumber exampleService + 1) (number ?F) (timestamp ?F)),
             Emit (finalityCheckpoint (timestamp ?F))]
      \<and> queue s' = queue exampleService" ..
  note w = W [THEN conjunct1]
    and b = W [THEN conjunct2, THEN conjunct2, THEN conjunct1]
    and f = W [THEN conjunct2, THEN conjunct2, THEN conjunct2, THEN conjunct1]
    and e = W [THEN conjunct2, THEN conjunct2, THEN conjunct2, THEN conjunct2, THEN conjunct1]
  have b': "map number (blocks s') = [99, 100, 101]"
    unfolding b by (simp add: exampleService_def rpcBlock_def rpcBlockToLightBlock_def)
  have f': "finalizedBlockNumber s' = 99"
    unfolding f by (simp add: rpcBlock_def rpcBlockToLightBlock_def)
  have e': "effects s' =
            [Request (GetLogs ''H101''), Emit (realtimeCheckpoint 1101),
             Store (InsertLogFilterCachedRanges [''k1''] 99 99 1099),
             Emit (finalityCheckpoint 1099)]"
    unfolding e m
    by (simp add: exampleService_def exampleEnv_def rpcBlock_def rpcBlockToLightBlock_def)
  from w b' f' e' have "\<exists>s'. blockTaskWorker exampleEnv exampleService ?B = Some (None, s')
        \<and> map number (blocks s') = [99, 100, 101]
        \<and> finalizedBlockNumber s' = 99
        \<and> effects s' =
            [Request (GetLogs ''H101''), Emit (realtimeCheckpoint 1101),
             Store (InsertLogFilterCachedRanges [''k1''] 99 99 1099),
             Emit (finalityCheckpoint 1099)]"
    by (intro exI [of _ s'] conjI)
  with h6 show ?thesis by (intro conjI)
qed

text \<open>
  C7.  A new head block whose bloom pre-screen passes and whose fetched logs all fail
  the filters: however the task ends, it has requested the logs and emitted
  \<open>realtimeCheckpoint\<close> with the timestamp of the block, it has made no
  \<open>insertRealtimeBlock\<close> call, and the light form of the block is appended to the local
  chain: the chain is the one before the task followed by that block, cut to the blocks
  with number \<open>\<ge> F.number\<close> when the finality step finds its block \<open>F\<close>; the block is
  its last element in either case.  The queue is as it was.
\<close>

theorem false_positive_block_not_inserted:
  assumes "blocks s \<noteq> []"
    and "find (\<lambda>b. hash b = hash block) (blocks s) = None"
    and "number block = number (last (blocks s)) + 1"
    and "parentHash block = hash (last (blocks s))"
    and "isMatchedLogInBloomFilter env (logsBloom block) (logFilters env)"
    and "eth_getLogs env (hash block) = Inr fetched"
    and "filterLogs env fetched (logFilters env) = []"
  shows "\<exists>out s' post. blockTaskWorker env s block = Some (out, s')
      \<and> effects s' = effects s
          @ [Request (GetLogs (hash block)), Emit (realtimeCheckpoint (timestamp block))] @ post
      \<and> (\<forall>c b txs ls. Store (InsertRealtimeBlock c b txs ls) \<notin> set post)
      \<and> blocks s' \<noteq> [] \<and> last (blocks s') = rpcBlockToLightBlock block
      \<and> blocks s' =
           (if finalizedBlockNumber s + 2 * finalityBlockCount env < number block
            then (case find (\<lambda>b. number b = finalizedBlockNumber s + finalityBlockCount env)
                         (blocks s @ [rpcBlockToLightBlock block]) of
                    None \<Rightarrow> blocks s @ [rpcBlockToLightBlock block]
                  | Some F \<Rightarrow> filter (\<lambda>b. number F \<le> number b)
                               (blocks s @ [rpcBlockToLightBlock block]))
            else blocks s @ [rpcBlockToLightBlock block])
      \<and> queue s' = queue s"
proof -
  let ?s1 = "effect (Request (GetLogs (hash block))) s"
  have n: "newHead env s block = acceptHead env ?s1 block"
    by (simp add: newHead_def insertMatchedLogs_false_positive [OF assms(5,6,7)])
  from acceptHead_shape [of env ?s1 block] obtain out s' post where
    A: "acceptHead env ?s1 block = (out, s')
      \<and> effects s' = effects ?s1 @ Emit (realtimeCheckpoint (timestamp block)) # post
      \<and> (\<forall>c b txs ls. Store (InsertRealtimeBlock c b txs ls) \<notin> set post)
      \<and> blocks s' \<noteq> [] \<and> last (blocks s') = rpcBlockToLightBlock block
      \<and> queue s' = queue ?s1"
    by (elim exE) (rule that)
  note a = A [THEN conjunct1] and e = A [THEN conjunct2, THEN conjunct1]
    and p = A [THEN conjunct2, THEN conjunct2, THEN conjunct1]
    and b = A [THEN conjunct2, THEN conjunct2, THEN conjunct2, THEN conjunct1]
      A [THEN conjunct2, THEN conjunct2, THEN conjunct2, THEN conjunct2, THEN conjunct1]
  have w: "blockTaskWorker env s block = Some (out, s')"
    using worker_newHead [OF assms(1-4), of env] n a by simp
  have e': "effects s' = effects s
          @ [Request (GetLogs (hash block)), Emit (realtimeCheckpoint (timestamp block))] @ post"
    using e by (simp add: effect_def)
  have b1: "blocks ?s1 = blocks s" and f1: "finalizedBlockNumber ?s1 = finalizedBlockNumber s"
    by (simp_all add: effect_def)
  have c: "blocks s' =
           (if finalizedBlockNumber s + 2 * finalityBlockCount env < number block
            then (case find (\<lambda>b. number b = finalizedBlockNumber s + finalityBlockCount env)
                         (blocks s @ [rpcBlockToLightBlock block]) of
                    None \<Rightarrow> blocks s @ [rpcBlockToLightBlock block]
                  | Some F \<Rightarrow> filter (\<lambda>b. number F \<le> number b)
                               (blocks s @ [rpcBlockToLightBlock block]))
            else blocks s @ [rpcBlockToLightBlock block])"
    using acceptHead_chain [of env ?s1 block] unfolding a b1 f1 snd_conv .
  have q: "queue s' = queue s"
    using A [THEN conjunct2, THEN conjunct2, THEN conjunct2, THEN conjunct2, THEN conjunct2]
    by (simp add: effect_def)
  from w e' p b c q show ?thesis by (intro exI [of _ out] exI [of _ s'] exI [of _ post] conjI)
qed

theorem false_positive_block_not_inserted_witness:
  "isMatchedLogInBloomFilter exampleEnv (logsBloom (rpcBlock ''H101'' 101 ''H100'')) (logFilters exampleEnv)
   \<and> filterLogs exampleEnv [] (logFilters exampleEnv) = []
   \<and> (\<exists>out s' post.
         blockTaskWorker (exampleEnv\<lparr>finalityBlockCount := 10\<rparr>) exampleService (rpcBlock ''H101'' 101 ''H100'')
           = Some (out, s')
       \<and> effects s' = effects exampleService
          @ [Request (GetLogs ''H101''), Emit (realtimeCheckpoint 1101)] @ post
       \<and> (\<forall>c b txs ls. Store (InsertRealtimeBlock c b txs ls) \<notin> set post)
       \<and> blocks s' \<noteq> [] \<and> last (blocks s') = rpcBlockToLightBlock (rpcBlock ''H101'' 101 ''H100'')
       \<and> blocks s' = blocks exampleService @ [rpcBlockToLightBlock (rpcBlock ''H101'' 101 ''H100'')]
       \<and> map number (blocks s') = [98, 99, 100, 101]
       \<and> queue s' = queue exampleService)"
proof -
  let ?B = "rpcBlock ''H101'' 101 ''H100''"
  let ?env = "exampleEnv\<lparr>finalityBlockCount := 10\<rparr>"
  have h1: "blocks exampleService \<noteq> []" by (simp add: exampleService_def)
  have h2: "find (\<lambda>b. hash b = hash ?B) (blocks exampleService) = None"
    by (simp add: exampleService_def rpcBlock_def rpcBlockToLightBlock_def)
  have h3: "number ?B = number (last (blocks exampleService)) + 1"
    by (simp add: exampleService_def rpcBlock_def rpcBlockToLightBlock_def)
  have h4: "parentHash ?B = hash (last (blocks exampleService))"
    by (simp add: exampleService_def rpcBlock_def rpcBlockToLightBlock_def)
  have h5: "isMatchedLogInBloomFilter ?env (logsBloom ?B) (logFilters ?env)"
    by (simp add: exampleEnv_def)
  have h6: "eth_getLogs ?env (hash ?B) = Inr []" by (simp add: exampleEnv_def)
  have h7: "filterLogs ?env [] (logFilters ?env) = []" by (simp add: exampleEnv_def)
  have g1: "isMatchedLogInBloomFilter exampleEnv (logsBloom ?B) (logFilters exampleEnv)"
    by (simp add: exampleEnv_def)
  have g2: "filterLogs exampleEnv [] (logFilters exampleEnv) = []" by (simp add: exampleEnv_def)
  have hs: "hash ?B = ''H101''" "timestamp ?B = 1101" by (simp_all add: rpcBlock_def)
  have nd: "\<not> finalizedBlockNumber exampleService + 2 * finalityBlockCount ?env < number ?B"
    by (simp add: exampleService_def rpcBlock_def)
  from false_positive_block_not_inserted [OF h1 h2 h3 h4 h5 h6 h7] obtain out s' post where
    W: "blockTaskWorker ?env exampleService ?B = Some (out, s')
       \<and> effects s' = effects exampleService
          @ [Request (GetLogs ''H101''), Emit (realtimeCheckpoint 1101)] @ post
       \<and> (\<forall>c b txs ls. Store (InsertRealtimeBlock c b txs ls) \<notin> set post)
       \<and> blocks s' \<noteq> [] \<and> last (blocks s') = rpcBlockToLightBlock ?B
       \<and> blocks s' = blocks exampleService @ [rpcBlockToLightBlock ?B]
       \<and> queue s' = queue exampleService"
    unfolding hs if_not_P [OF nd] by (elim exE) (rule that)
  note w1 = W [THEN conjunct1] and w2 = W [THEN conjunct2, THEN conjunct1]
    and w3 = W [THEN conjunct2, THEN conjunct2, THEN conjunct1]
    and w4 = W [THEN conjunct2, THEN conjunct2, THEN conjunct2, THEN conjunct1]
    and w5 = W [THEN conjunct2, THEN conjunct2, THEN conjunct2, THEN conjunct2, THEN conjunct1]
    and w6 = W [THEN conjunct2, THEN conjunct2, THEN conjunct2, THEN conjunct2, THEN conjunct2,
                THEN conjunct1]
    and w7 = W [THEN conjunct2, THEN conjunct2, THEN conjunct2, THEN conjunct2, THEN conjunct2,
                THEN conjunct2]
  have w8: "map number (blocks s') = [98, 99, 100, 101]"
    unfolding w6 by (simp add: exampleService_def rpcBlock_def rpcBlockToLightBlock_def)
  from w1 w2 w3 w4 w5 w6 w8 w7
  have "\<exists>out s' post.
         blockTaskWorker ?env exampleService ?B = Some (out, s')
       \<and> effects s' = effects exampleService
          @ [Request (GetLogs ''H101''), Emit (realtimeCheckpoint 1101)] @ post
       \<and> (\<forall>c b txs ls. Store (InsertRealtimeBlock c b txs ls) \<notin> set post)
       \<and> blocks s' \<noteq> [] \<and> last (blocks s') = rpcBlockToLightBlock ?B
       \<and> blocks s' = blocks exampleService @ [rpcBlockToLightBlock ?B]
       \<and> map number (blocks s') = [98, 99, 100, 101]
       \<and> queue s' = queue exampleService"
    by (intro exI [of _ out] exI [of _ s'] exI [of _ post] conjI)
  with g1 g2 show ?thesis by (intro conjI)
qed
subsection \<open>Reorgs\<close>

lemma foldl_addTask:
  "foldl addTask s bs = s\<lparr>queue := queue s @ map (\<lambda>b. (b, MAX_SAFE_INTEGER - int (number b))) bs\<rparr>"
  by (induction bs arbitrary: s) (simp_all add: addTask_def)

lemma parentRequests_Cons:
  "parentRequests (b # p # ps) = Request (GetBlockByHash (parentHash b) True) # parentRequests (p # ps)"
  by (simp add: parentRequests_def)

lemma traverse_ascends:
  "ascends env (blocks s) (finalizedBlockNumber s) (rpcBlockToLightBlock cur) fetched
   \<Longrightarrow> traverse env s nb canon (rpcBlockToLightBlock cur) depth
       = traverse env (s\<lparr>effects := effects s @ parentRequests (cur # fetched)\<rparr>) nb
           (rev fetched @ canon) (rpcBlockToLightBlock (last (cur # fetched))) (depth + length fetched)"
proof (induction fetched arbitrary: s cur canon depth)
  case Nil
  show ?case by (simp add: parentRequests_def)
next
  case (Cons p ps)
  let ?s1 = "effect (Request (GetBlockByHash (parentHash cur) True)) s"
  from Cons.prems have c: "number cur > finalizedBlockNumber s"
    "find (\<lambda>b. hash b = parentHash cur) (blocks s) = None"
    "eth_getBlockByHash env (parentHash cur) True = Inr (Some p)"
    and a: "ascends env (blocks ?s1) (finalizedBlockNumber ?s1) (rpcBlockToLightBlock p) ps"
    by (simp_all add: light_simps effect_def)
  have "traverse env s nb canon (rpcBlockToLightBlock cur) depth
      = traverse env ?s1 nb (p # canon) (rpcBlockToLightBlock p) (depth + 1)"
    by (subst traverse.simps) (simp add: c light_simps)
  also have "\<dots> = traverse env (?s1\<lparr>effects := effects ?s1 @ parentRequests (p # ps)\<rparr>) nb
           (rev ps @ p # canon) (rpcBlockToLightBlock (last (p # ps))) (depth + 1 + length ps)"
    by (rule Cons.IH [OF a])
  also have "?s1\<lparr>effects := effects ?s1 @ parentRequests (p # ps)\<rparr>
      = s\<lparr>effects := effects s @ parentRequests (cur # p # ps)\<rparr>"
    by (simp add: effect_def parentRequests_Cons)
  finally show ?case by simp
qed

lemma worker_reorg:
  assumes "blocks s \<noteq> []"
    and "find (\<lambda>b. hash b = hash block) (blocks s) = None"
    and "\<not> (number block = number (last (blocks s)) + 1 \<and> parentHash block = hash (last (blocks s)))"
    and "number block \<le> number (last (blocks s)) + 1"
  shows "blockTaskWorker env s block
     = traverse env s (rpcBlockToLightBlock block) [block] (rpcBlockToLightBlock block) 0"
  using assms(3,4)
  by (auto simp add: blockTaskWorker_def case_nonempty Let_def light_simps assms(1,2))

lemma traverse_deep:
  assumes "number cursor \<le> finalizedBlockNumber s"
  shows "traverse env s nb canon cursor depth = Some (None, effect (Emit (deepReorg (number nb) depth)) s)"
proof -
  have "\<not> finalizedBlockNumber s < number cursor" using assms by simp
  then show ?thesis by (subst traverse.simps) simp
qed

lemma traverse_found:
  assumes "number cursor > finalizedBlockNumber s"
    and "find (\<lambda>b. hash b = parentHash cursor) (blocks s) = Some A"
  shows "traverse env s nb canon cursor depth = Some (reconcile env s canon A)"
  by (subst traverse.simps) (simp add: assms)

lemma reconcile_ok:
  assumes "eventStore env (DeleteRealtimeData (chainId env) (number A + 1)) = None"
    and "eth_getBlockByNumber env Latest True = Inr (Some latest)"
  shows "reconcile env s canon A =
     (None, s\<lparr>blocks := filter (\<lambda>b. number b \<le> number A) (blocks s),
              queue := map (\<lambda>b. (b, MAX_SAFE_INTEGER - int (number b))) (canon @ [latest]),
              effects := effects s @
                [Store (DeleteRealtimeData (chainId env) (number A + 1)),
                 Request (GetBlockByNumber Latest True),
                 Emit (shallowReorg (timestamp A))]\<rparr>)"
  using assms by (simp add: reconcile_def Let_def effect_def foldl_addTask addTask_def)


lemma no_store_in_parentRequests: "Store call \<notin> set (parentRequests chain)"
  by (auto simp: parentRequests_def)

lemma ascending_canonical:
  "sorted_wrt (\<lambda>child parent. number parent < number child) (block # fetched)
     \<Longrightarrow> sorted_wrt (<) (map number (rev fetched @ [block]))"
proof -
  assume a: "sorted_wrt (\<lambda>child parent. number parent < number child) (block # fetched)"
  have "sorted_wrt (<) (map number (rev (block # fetched)))"
    unfolding sorted_wrt_map sorted_wrt_rev using a .
  then show ?thesis by simp
qed

text \<open>
  C8.  A block task \<open>B\<close> classified as a reorg (not in the local chain, not the new
  head, not above the head by more than one) whose traversal fetches the parents
  \<open>fetched\<close> without finding a common ancestor and ends at a cursor with number
  \<open>\<le> finalizedBlockNumber\<close>: the task returns; it emits \<open>deepReorg\<close> with
  \<open>detectedAtBlockNumber = B.number\<close> and \<open>minimumDepth\<close> the number of parents fetched;
  besides the requests for the parents and that event, the service is as it was (local
  chain, \<open>finalizedBlockNumber\<close>, queue), and no call is made to the event store.
\<close>

theorem deep_reorg_leaves_state:
  assumes "blocks s \<noteq> []"
    and "find (\<lambda>b. hash b = hash block) (blocks s) = None"
    and "\<not> (number block = number (last (blocks s)) + 1 \<and> parentHash block = hash (last (blocks s)))"
    and "number block \<le> number (last (blocks s)) + 1"
    and "ascends env (blocks s) (finalizedBlockNumber s) (rpcBlockToLightBlock block) fetched"
    and "number (last (block # fetched)) \<le> finalizedBlockNumber s"
  shows "blockTaskWorker env s block =
           Some (None, s\<lparr>effects := effects s @ parentRequests (block # fetched)
                            @ [Emit (deepReorg (number block) (length fetched))]\<rparr>)
       \<and> (\<forall>call. Store call \<notin> set (parentRequests (block # fetched)))"
proof
  let ?s' = "s\<lparr>effects := effects s @ parentRequests (block # fetched)\<rparr>"
  have le: "number (rpcBlockToLightBlock (last (block # fetched))) \<le> finalizedBlockNumber ?s'"
    using assms(6) by (simp add: light_simps)
  have "blockTaskWorker env s block
      = traverse env s (rpcBlockToLightBlock block) [block] (rpcBlockToLightBlock block) 0"
    by (rule worker_reorg [OF assms(1-4)])
  also have "\<dots> = traverse env ?s' (rpcBlockToLightBlock block) (rev fetched @ [block])
      (rpcBlockToLightBlock (last (block # fetched))) (0 + length fetched)"
    by (rule traverse_ascends [OF assms(5)])
  also have "\<dots> = Some (None, effect (Emit (deepReorg (number (rpcBlockToLightBlock block)) (0 + length fetched))) ?s')"
    by (rule traverse_deep [OF le])
  finally show "blockTaskWorker env s block =
           Some (None, s\<lparr>effects := effects s @ parentRequests (block # fetched)
                            @ [Emit (deepReorg (number block) (length fetched))]\<rparr>)"
    by (simp add: effect_def light_simps)
next
  show "\<forall>call. Store call \<notin> set (parentRequests (block # fetched))"
    by (simp add: no_store_in_parentRequests)
qed

text \<open>
  C2.  A block task \<open>B\<close> classified as a reorg whose traversal fetches the parents
  \<open>fetched\<close> and then finds the local block \<open>A\<close> with \<open>A.hash = cursor.parentHash\<close> at a
  cursor above the finalized block, where \<open>deleteRealtimeData\<close> and the fetch of the
  latest block succeed: the task returns; the local chain is cut to the blocks with
  number \<open>\<le> A.number\<close>; \<open>deleteRealtimeData\<close> is called with
  \<open>fromBlockNumber = A.number + 1\<close>; the queue holds exactly the canonical blocks (the
  parents from the last fetched to the first, then \<open>B\<close>) and then the latest block,
  each with priority \<open>MAX_SAFE_INTEGER - number\<close>; \<open>shallowReorg\<close> is emitted with
  \<open>A.timestamp\<close>.  The canonical blocks are in ascending order of number when every
  fetched parent has a smaller number than the blocks fetched before it.
\<close>

theorem shallow_reorg_reconciles:
  assumes "blocks s \<noteq> []"
    and "find (\<lambda>b. hash b = hash block) (blocks s) = None"
    and "\<not> (number block = number (last (blocks s)) + 1 \<and> parentHash block = hash (last (blocks s)))"
    and "number block \<le> number (last (blocks s)) + 1"
    and "ascends env (blocks s) (finalizedBlockNumber s) (rpcBlockToLightBlock block) fetched"
    and "number (last (block # fetched)) > finalizedBlockNumber s"
    and "find (\<lambda>b. hash b = parentHash (last (block # fetched))) (blocks s) = Some A"
    and "eventStore env (DeleteRealtimeData (chainId env) (number A + 1)) = None"
    and "eth_getBlockByNumber env Latest True = Inr (Some latest)"
  shows "blockTaskWorker env s block =
           Some (None,
             s\<lparr>blocks := filter (\<lambda>b. number b \<le> number A) (blocks s),
               queue := map (\<lambda>b. (b, MAX_SAFE_INTEGER - int (number b))) (rev fetched @ [block, latest]),
               effects := effects s @ parentRequests (block # fetched)
                 @ [Store (DeleteRealtimeData (chainId env) (number A + 1)),
                    Request (GetBlockByNumber Latest True),
                    Emit (shallowReorg (timestamp A))]\<rparr>)
       \<and> (sorted_wrt (\<lambda>child parent. number parent < number child) (block # fetched)
            \<longrightarrow> sorted_wrt (<) (map number (rev fetched @ [block])))"
proof
  let ?s' = "s\<lparr>effects := effects s @ parentRequests (block # fetched)\<rparr>"
  have gt: "number (rpcBlockToLightBlock (last (block # fetched))) > finalizedBlockNumber ?s'"
    using assms(6) by (simp add: light_simps)
  have fd: "find (\<lambda>b. hash b = parentHash (rpcBlockToLightBlock (last (block # fetched)))) (blocks ?s') = Some A"
    using assms(7) by (simp add: light_simps)
  have "blockTaskWorker env s block
      = traverse env s (rpcBlockToLightBlock block) [block] (rpcBlockToLightBlock block) 0"
    by (rule worker_reorg [OF assms(1-4)])
  also have "\<dots> = traverse env ?s' (rpcBlockToLightBlock block) (rev fetched @ [block])
      (rpcBlockToLightBlock (last (block # fetched))) (0 + length fetched)"
    by (rule traverse_ascends [OF assms(5)])
  also have "\<dots> = Some (reconcile env ?s' (rev fetched @ [block]) A)"
    by (rule traverse_found [OF gt fd])
  finally show "blockTaskWorker env s block =
           Some (None,
             s\<lparr>blocks := filter (\<lambda>b. number b \<le> number A) (blocks s),
               queue := map (\<lambda>b. (b, MAX_SAFE_INTEGER - int (number b))) (rev fetched @ [block, latest]),
               effects := effects s @ parentRequests (block # fetched)
                 @ [Store (DeleteRealtimeData (chainId env) (number A + 1)),
                    Request (GetBlockByNumber Latest True),
                    Emit (shallowReorg (timestamp A))]\<rparr>)"
    by (simp add: reconcile_ok [OF assms(8,9)])
next
  show "sorted_wrt (\<lambda>child parent. number parent < number child) (block # fetched)
            \<longrightarrow> sorted_wrt (<) (map number (rev fetched @ [block]))"
    using ascending_canonical [of block fetched] by blast
qed

lemma example_reorg_class:
  "blocks exampleService \<noteq> []"
  "find (\<lambda>b. hash b = h) (blocks exampleService)
     = (if h = ''H98'' then Some (rpcBlockToLightBlock (rpcBlock ''H98'' 98 ''H97''))
        else if h = ''H99'' then Some (rpcBlockToLightBlock (rpcBlock ''H99'' 99 ''H98''))
        else if h = ''H100'' then Some (rpcBlockToLightBlock (rpcBlock ''H100'' 100 ''H99''))
        else None)"
  "number (last (blocks exampleService)) = 100"
  "hash (last (blocks exampleService)) = ''H100''"
  "finalizedBlockNumber exampleService = 98"
  by (auto simp add: exampleService_def rpcBlock_def rpcBlockToLightBlock_def)

lemma rpcBlock_simps:
  "hash (rpcBlock h n p) = h" "number (rpcBlock h n p) = n" "parentHash (rpcBlock h n p) = p"
  "timestamp (rpcBlock h n p) = 1000 + n"
  by (simp_all add: rpcBlock_def)

theorem deep_reorg_leaves_state_witness:
  "ascends exampleEnv (blocks exampleService) (finalizedBlockNumber exampleService)
      (rpcBlockToLightBlock (rpcBlock ''Y99'' 99 ''Y98'')) [rpcBlock ''Y98'' 98 ''Y97'']
   \<and> number (rpcBlock ''Y98'' 98 ''Y97'') \<le> finalizedBlockNumber exampleService
   \<and> blockTaskWorker exampleEnv exampleService (rpcBlock ''Y99'' 99 ''Y98'') =
       Some (None, exampleService\<lparr>effects :=
          [Request (GetBlockByHash ''Y98'' True), Emit (deepReorg 99 1)]\<rparr>)"
proof -
  let ?B = "rpcBlock ''Y99'' 99 ''Y98''"
  let ?P = "rpcBlock ''Y98'' 98 ''Y97''"
  have h1: "blocks exampleService \<noteq> []" by (rule example_reorg_class)
  have h2: "find (\<lambda>b. hash b = hash ?B) (blocks exampleService) = None"
    by (simp add: example_reorg_class rpcBlock_simps)
  have h3: "\<not> (number ?B = number (last (blocks exampleService)) + 1
      \<and> parentHash ?B = hash (last (blocks exampleService)))"
    by (simp add: example_reorg_class rpcBlock_simps)
  have h4: "number ?B \<le> number (last (blocks exampleService)) + 1"
    by (simp add: example_reorg_class rpcBlock_simps)
  have h5: "ascends exampleEnv (blocks exampleService) (finalizedBlockNumber exampleService)
      (rpcBlockToLightBlock ?B) [?P]"
    by (simp add: example_reorg_class rpcBlock_simps light_simps exampleEnv_def)
  have h6: "number (last [?B, ?P]) \<le> finalizedBlockNumber exampleService"
    by (simp add: example_reorg_class rpcBlock_simps)
  from deep_reorg_leaves_state [OF h1 h2 h3 h4 h5 h6, THEN conjunct1]
  have "blockTaskWorker exampleEnv exampleService ?B =
       Some (None, exampleService\<lparr>effects :=
          [Request (GetBlockByHash ''Y98'' True), Emit (deepReorg 99 1)]\<rparr>)"
    by (simp add: parentRequests_def rpcBlock_simps exampleService_def)
  moreover from h6 have "number ?P \<le> finalizedBlockNumber exampleService" by simp
  ultimately show ?thesis using h5 by (intro conjI)
qed

theorem shallow_reorg_reconciles_witness:
  "ascends exampleEnv (blocks exampleService) (finalizedBlockNumber exampleService)
      (rpcBlockToLightBlock (rpcBlock ''X101'' 101 ''X100'')) [rpcBlock ''X100'' 100 ''H99'']
   \<and> find (\<lambda>b. hash b = parentHash (rpcBlock ''X100'' 100 ''H99'')) (blocks exampleService)
       = Some (rpcBlockToLightBlock (rpcBlock ''H99'' 99 ''H98''))
   \<and> blockTaskWorker exampleEnv exampleService (rpcBlock ''X101'' 101 ''X100'') =
       Some (None, exampleService\<lparr>
          blocks := [rpcBlockToLightBlock (rpcBlock ''H98'' 98 ''H97''),
                     rpcBlockToLightBlock (rpcBlock ''H99'' 99 ''H98'')],
          queue := [(rpcBlock ''X100'' 100 ''H99'', MAX_SAFE_INTEGER - 100),
                    (rpcBlock ''X101'' 101 ''X100'', MAX_SAFE_INTEGER - 101),
                    (rpcBlock ''H200'' 200 ''H199'', MAX_SAFE_INTEGER - 200)],
          effects := [Request (GetBlockByHash ''X100'' True), Store (DeleteRealtimeData 1 100),
                      Request (GetBlockByNumber Latest True), Emit (shallowReorg 1099)]\<rparr>)
   \<and> sorted_wrt (<) (map number [rpcBlock ''X100'' 100 ''H99'', rpcBlock ''X101'' 101 ''X100''])"
proof -
  let ?B = "rpcBlock ''X101'' 101 ''X100''"
  let ?P = "rpcBlock ''X100'' 100 ''H99''"
  let ?A = "rpcBlockToLightBlock (rpcBlock ''H99'' 99 ''H98'')"
  let ?L = "rpcBlock ''H200'' 200 ''H199''"
  have h1: "blocks exampleService \<noteq> []" by (rule example_reorg_class)
  have h2: "find (\<lambda>b. hash b = hash ?B) (blocks exampleService) = None"
    by (simp add: example_reorg_class rpcBlock_simps)
  have h3: "\<not> (number ?B = number (last (blocks exampleService)) + 1
      \<and> parentHash ?B = hash (last (blocks exampleService)))"
    by (simp add: example_reorg_class rpcBlock_simps)
  have h4: "number ?B \<le> number (last (blocks exampleService)) + 1"
    by (simp add: example_reorg_class rpcBlock_simps)
  have h5: "ascends exampleEnv (blocks exampleService) (finalizedBlockNumber exampleService)
      (rpcBlockToLightBlock ?B) [?P]"
    by (simp add: example_reorg_class rpcBlock_simps light_simps exampleEnv_def)
  have h6: "number (last [?B, ?P]) > finalizedBlockNumber exampleService"
    by (simp add: example_reorg_class rpcBlock_simps)
  have h7: "find (\<lambda>b. hash b = parentHash (last [?B, ?P])) (blocks exampleService) = Some ?A"
    by (simp add: example_reorg_class rpcBlock_simps)
  have h8: "eventStore exampleEnv (DeleteRealtimeData (chainId exampleEnv) (number ?A + 1)) = None"
    by (simp add: exampleEnv_def)
  have h9: "eth_getBlockByNumber exampleEnv Latest True = Inr (Some ?L)"
    by (simp add: exampleEnv_def)
  note inst = shallow_reorg_reconciles [OF h1 h2 h3 h4 h5 h6 h7 h8 h9]
  have d: "sorted_wrt (\<lambda>child parent. number parent < number child) [?B, ?P]"
    by (simp add: rpcBlock_simps)
  from inst [THEN conjunct2] d have 2: "sorted_wrt (<) (map number [?P, ?B])" by simp
  from inst [THEN conjunct1]
  have 1: "blockTaskWorker exampleEnv exampleService ?B =
       Some (None, exampleService\<lparr>
          blocks := [rpcBlockToLightBlock (rpcBlock ''H98'' 98 ''H97''), ?A],
          queue := [(?P, MAX_SAFE_INTEGER - 100), (?B, MAX_SAFE_INTEGER - 101),
                    (?L, MAX_SAFE_INTEGER - 200)],
          effects := [Request (GetBlockByHash ''X100'' True), Store (DeleteRealtimeData 1 100),
                      Request (GetBlockByNumber Latest True), Emit (shallowReorg 1099)]\<rparr>)"
    by (simp add: parentRequests_def rpcBlock_simps light_simps exampleService_def exampleEnv_def)
  from h7 have 3: "find (\<lambda>b. hash b = parentHash ?P) (blocks exampleService) = Some ?A" by simp
  from h5 3 1 2 show ?thesis by (intro conjI)
qed
end
